theory Spec2Isabelle
  imports Complex_Main
begin

section \<open>Tolerance-band comparators\<close>

text \<open>
  Numbers read from the JSON files and from the configuration are modelled as
  \<^typ>\<open>real\<close>; Python lists are HOL lists. Exceptions and the test signals raised by
  \<^verbatim>\<open>asserts.fail\<close> and \<^verbatim>\<open>asserts.explicit_pass\<close> are values.
\<close>

datatype exn = FileNotFoundError | JSONDecodeError | IndexError | KeyError | TypeError

text \<open>
  What \<^verbatim>\<open>open\<close> followed by \<^verbatim>\<open>json.load\<close> yields: the file does not exist, it is
  not JSON, or it parses to an object with the fields of the result schema.
\<close>

datatype 'a json_file = Missing | Unparsable | Loaded 'a

record test_params =
  abs_tolerance :: real
  pct_tolerance :: real
  failure_count_tolerance :: int
  has_fixed_attenuation :: bool

record sweep =
  fixed_attenuation :: real
  attenuation :: "real list"

record rvr_result = sweep +
  throughput_receive :: "real list"

record coex_result = sweep +
  throughput_received :: "real list"

subsection \<open>Nearest reference points\<close>

definition att_distances :: "real \<Rightarrow> real list \<Rightarrow> real list" where
  "att_distances current_att gldn_attenuation =
     map (\<lambda>gldn_att. \<bar>current_att - gldn_att\<bar>) gldn_attenuation"

text \<open>\<^verbatim>\<open>sorted(enumerate(att_distances), key=lambda x: x[1])\<close>: a stable sort.\<close>

definition sorted_distances :: "real list \<Rightarrow> (nat \<times> real) list" where
  "sorted_distances dists = sort_key snd (enumerate 0 dists)"

text \<open>\<^verbatim>\<open>[dist[0] for dist in sorted_distances[0:k]]\<close>\<close>

definition closest_indeces :: "nat \<Rightarrow> real list \<Rightarrow> nat list" where
  "closest_indeces k dists = map fst (take k (sorted_distances dists))"

text \<open>
  \<^verbatim>\<open>[values[index] for index in closest_indeces]\<close>, raising \<^verbatim>\<open>IndexError\<close> at the
  first index that is out of range, followed by \<^verbatim>\<open>.sort()\<close>.
\<close>

fun lookup_all :: "real list \<Rightarrow> nat list \<Rightarrow> exn + real list" where
  "lookup_all vals [] = Inr []"
| "lookup_all vals (i # is) =
     (if i < length vals
      then (case lookup_all vals is of Inl e \<Rightarrow> Inl e | Inr vs \<Rightarrow> Inr (vals ! i # vs))
      else Inl IndexError)"

definition closest_throughputs :: "real list \<Rightarrow> nat list \<Rightarrow> exn + real list" where
  "closest_throughputs vals idxs =
     (case lookup_all vals idxs of Inl e \<Rightarrow> Inl e | Inr vs \<Rightarrow> Inr (sort vs))"

subsection \<open>WifiRvrTest.pass\_fail\_check\<close>

datatype outcome =
    TestPass
  | TestFailure real real "real list"
  | Raised exn

text \<open>The two-element list \<^verbatim>\<open>allowed_throughput_range\<close>.\<close>

definition allowed_throughput_range :: "test_params \<Rightarrow> real list \<Rightarrow> exn + real list" where
  "allowed_throughput_range tp cts =
     (if length cts < 2 then Inl IndexError
      else Inr [max (cts ! 0 - max (abs_tolerance tp) (cts ! 0 * pct_tolerance tp / 100)) 0,
                cts ! 1 + max (abs_tolerance tp) (cts ! 1 * pct_tolerance tp / 100)])"

definition throughput_distance :: "real \<Rightarrow> real list \<Rightarrow> real list" where
  "throughput_distance current_throughput rng =
     map (\<lambda>throughput_limit. current_throughput - throughput_limit) rng"

text \<open>The condition of the \<^verbatim>\<open>if\<close> that guards \<^verbatim>\<open>asserts.fail\<close>.\<close>

definition beyond_limits :: "test_params \<Rightarrow> real \<Rightarrow> real list \<Rightarrow> bool" where
  "beyond_limits tp current_throughput rng =
     (throughput_distance current_throughput rng ! 0 < - abs_tolerance tp
      \<or> throughput_distance current_throughput rng ! 1 > abs_tolerance tp)"

text \<open>
  The part of the loop body before the check: the effective attenuation of point
  \<open>idx\<close> and its allowed range, or the exception raised on the way.
\<close>

definition rvr_limits ::
  "test_params \<Rightarrow> rvr_result \<Rightarrow> rvr_result \<Rightarrow> real list \<Rightarrow> nat \<Rightarrow> exn + (real \<times> real list)" where
  "rvr_limits tp gldn_results rvr gldn_attenuation idx =
     (if idx < length (attenuation rvr) then
        (let current_att = attenuation rvr ! idx + fixed_attenuation rvr
         in case closest_throughputs (throughput_receive gldn_results)
                   (closest_indeces 2 (att_distances current_att gldn_attenuation)) of
              Inl e \<Rightarrow> Inl e
            | Inr cts \<Rightarrow>
                (case allowed_throughput_range tp cts of
                   Inl e \<Rightarrow> Inl e
                 | Inr rng \<Rightarrow> Inr (current_att, rng)))
      else Inl IndexError)"

text \<open>
  The \<^verbatim>\<open>for idx, current_throughput in enumerate(...)\<close> loop, from index \<open>idx\<close> on;
  running off the end reaches \<^verbatim>\<open>asserts.explicit_pass\<close>.
\<close>

fun rvr_loop ::
  "test_params \<Rightarrow> rvr_result \<Rightarrow> rvr_result \<Rightarrow> real list \<Rightarrow> nat \<Rightarrow> real list \<Rightarrow> outcome" where
  "rvr_loop tp gldn_results rvr gldn_attenuation idx [] = TestPass"
| "rvr_loop tp gldn_results rvr gldn_attenuation idx (current_throughput # rest) =
     (case rvr_limits tp gldn_results rvr gldn_attenuation idx of
        Inl e \<Rightarrow> Raised e
      | Inr (current_att, rng) \<Rightarrow>
          if beyond_limits tp current_throughput rng
          then TestFailure current_att current_throughput rng
          else rvr_loop tp gldn_results rvr gldn_attenuation (Suc idx) rest)"

definition pass_fail_check :: "test_params \<Rightarrow> rvr_result json_file \<Rightarrow> rvr_result \<Rightarrow> outcome" where
  "pass_fail_check tp gldn_file rvr =
     (case gldn_file of
        Missing \<Rightarrow> Raised FileNotFoundError
      | Unparsable \<Rightarrow> Raised JSONDecodeError
      | Loaded gldn_results \<Rightarrow>
          (let gldn_attenuation =
                 map (\<lambda>att. att + fixed_attenuation gldn_results) (attenuation gldn_results)
           in rvr_loop tp gldn_results rvr gldn_attenuation 0 (throughput_receive rvr)))"

subsection \<open>CoexPerformanceBaseTest: throughput limits\<close>

text \<open>
  \<^verbatim>\<open>self.rvr\<close> and the parsed performance file are dictionaries from a Bluetooth
  attenuation to a sweep. The performance file is keyed by \<^verbatim>\<open>str(bt_atten)\<close>, which
  is one-to-one on the integers of \<^verbatim>\<open>bt_atten_range\<close>, so both are maps on \<^typ>\<open>int\<close>.
  For the performance file, \<^const>\<open>Missing\<close> also stands for a file list without a
  matching name.
\<close>

record limits =
  x_attenuation :: "real list"
  lower_limit :: "real list"
  upper_limit :: "real list"

definition total_attenuation :: "test_params \<Rightarrow> coex_result \<Rightarrow> real list option" where
  "total_attenuation tp performance_dict =
     (if has_fixed_attenuation tp
      then Some (map (\<lambda>att. att + fixed_attenuation performance_dict)
                  (attenuation performance_dict))
      else None)"

text \<open>
  One pass of the inner loop body of \<^verbatim>\<open>get_throughput_limits\<close>: the effective
  attenuation of point \<open>idx\<close> with its lower and upper limit.
\<close>

definition coex_limits ::
  "test_params \<Rightarrow> coex_result \<Rightarrow> coex_result \<Rightarrow> real list option \<Rightarrow> nat
     \<Rightarrow> exn + (real \<times> real \<times> real)" where
  "coex_limits tp rvr_bt performance_bt performance_attenuation idx =
     (if idx < length (attenuation rvr_bt) then
        (let current_att = attenuation rvr_bt ! idx + fixed_attenuation rvr_bt
         in case performance_attenuation of
              None \<Rightarrow> Inl TypeError
            | Some perf_att \<Rightarrow>
                (case closest_throughputs (throughput_received performance_bt)
                        (closest_indeces 3 (att_distances current_att perf_att)) of
                   Inl e \<Rightarrow> Inl e
                 | Inr cts \<Rightarrow>
                     if cts = [] then Inl IndexError
                     else Inr (current_att,
                            max (cts ! 0 - max (abs_tolerance tp)
                                             (cts ! 0 * pct_tolerance tp / 100)) 0,
                            last cts + max (abs_tolerance tp)
                                           (last cts * pct_tolerance tp / 100))))
      else Inl IndexError)"

fun limits_loop ::
  "test_params \<Rightarrow> coex_result \<Rightarrow> coex_result \<Rightarrow> real list option \<Rightarrow> nat \<Rightarrow> real list
     \<Rightarrow> limits \<Rightarrow> exn + limits" where
  "limits_loop tp rvr_bt performance_bt performance_attenuation idx [] acc = Inr acc"
| "limits_loop tp rvr_bt performance_bt performance_attenuation idx (current_throughput # rest) acc =
     (case coex_limits tp rvr_bt performance_bt performance_attenuation idx of
        Inl e \<Rightarrow> Inl e
      | Inr (current_att, lo, hi) \<Rightarrow>
          limits_loop tp rvr_bt performance_bt performance_attenuation (Suc idx) rest
            (acc\<lparr>x_attenuation := x_attenuation acc @ [current_att],
                 lower_limit := lower_limit acc @ [lo],
                 upper_limit := upper_limit acc @ [hi]\<rparr>))"

text \<open>The body of \<^verbatim>\<open>for bt_atten in self.bt_atten_range\<close> for one attenuation.\<close>

definition group_limits ::
  "test_params \<Rightarrow> (int \<rightharpoonup> coex_result) \<Rightarrow> (int \<rightharpoonup> coex_result) \<Rightarrow> int \<Rightarrow> exn + limits" where
  "group_limits tp rvr performance_results bt_atten =
     (case performance_results bt_atten of
        None \<Rightarrow> Inl KeyError
      | Some performance_bt \<Rightarrow>
          (case rvr bt_atten of
             None \<Rightarrow> Inl KeyError
           | Some rvr_bt \<Rightarrow>
               limits_loop tp rvr_bt performance_bt (total_attenuation tp performance_bt) 0
                 (throughput_received rvr_bt)
                 \<lparr>x_attenuation = [], lower_limit = [], upper_limit = []\<rparr>))"

fun limits_groups ::
  "test_params \<Rightarrow> (int \<rightharpoonup> coex_result) \<Rightarrow> (int \<rightharpoonup> coex_result) \<Rightarrow> int list
     \<Rightarrow> (int \<rightharpoonup> limits) \<Rightarrow> exn + (int \<rightharpoonup> limits)" where
  "limits_groups tp rvr performance_results [] throughput_limits = Inr throughput_limits"
| "limits_groups tp rvr performance_results (bt_atten # rest) throughput_limits =
     (case group_limits tp rvr performance_results bt_atten of
        Inl e \<Rightarrow> Inl e
      | Inr l \<Rightarrow>
          limits_groups tp rvr performance_results rest (throughput_limits(bt_atten \<mapsto> l)))"

definition get_throughput_limits ::
  "test_params \<Rightarrow> int list \<Rightarrow> (int \<rightharpoonup> coex_result) \<Rightarrow> (int \<rightharpoonup> coex_result) json_file
     \<Rightarrow> exn + (int \<rightharpoonup> limits)" where
  "get_throughput_limits tp bt_atten_range rvr performance_file =
     (case performance_file of
        Missing \<Rightarrow> Inl FileNotFoundError
      | Unparsable \<Rightarrow> Inl JSONDecodeError
      | Loaded performance_results \<Rightarrow>
          limits_groups tp rvr performance_results bt_atten_range Map.empty)"

subsection \<open>CoexPerformanceBaseTest.throughput\_pass\_fail\_check\<close>

text \<open>
  The condition of the \<^verbatim>\<open>if\<close> in the inner loop. \<^verbatim>\<open>throughput_limits\<close> is a
  \<^verbatim>\<open>defaultdict(dict)\<close>, so an attenuation without limits raises \<^verbatim>\<open>KeyError\<close> at
  the first point; \<^verbatim>\<open>or\<close> reads the upper limit only when the first test is false.
\<close>

definition outside_limits :: "limits option \<Rightarrow> nat \<Rightarrow> real \<Rightarrow> exn + bool" where
  "outside_limits lims idx current_throughput =
     (case lims of
        None \<Rightarrow> Inl KeyError
      | Some l \<Rightarrow>
          if idx < length (lower_limit l) then
            (if current_throughput < lower_limit l ! idx then Inr True
             else if idx < length (upper_limit l)
                  then Inr (current_throughput > upper_limit l ! idx)
                  else Inl IndexError)
          else Inl IndexError)"

fun count_loop ::
  "coex_result \<Rightarrow> limits option \<Rightarrow> nat \<Rightarrow> real list \<Rightarrow> int \<Rightarrow> exn + int" where
  "count_loop rvr_bt lims idx [] failure_count = Inr failure_count"
| "count_loop rvr_bt lims idx (current_throughput # rest) failure_count =
     (if idx < length (attenuation rvr_bt) then
        (case outside_limits lims idx current_throughput of
           Inl e \<Rightarrow> Inl e
         | Inr True \<Rightarrow> count_loop rvr_bt lims (Suc idx) rest (failure_count + 1)
         | Inr False \<Rightarrow> count_loop rvr_bt lims (Suc idx) rest failure_count)
      else Inl IndexError)"

text \<open>
  The outer loop; \<open>Some False\<close> is \<^verbatim>\<open>return False\<close>, and \<open>None\<close> is the value of a
  call that runs off the end of the function.
\<close>

fun check_groups ::
  "test_params \<Rightarrow> (int \<rightharpoonup> coex_result) \<Rightarrow> (int \<rightharpoonup> limits) \<Rightarrow> int list \<Rightarrow> int
     \<Rightarrow> exn + bool option" where
  "check_groups tp rvr throughput_limits [] failure_count = Inr None"
| "check_groups tp rvr throughput_limits (bt_atten # rest) failure_count =
     (case rvr bt_atten of
        None \<Rightarrow> Inl KeyError
      | Some rvr_bt \<Rightarrow>
          (case count_loop rvr_bt (throughput_limits bt_atten) 0
                  (throughput_received rvr_bt) failure_count of
             Inl e \<Rightarrow> Inl e
           | Inr failure_count' \<Rightarrow>
               if failure_count' \<ge> failure_count_tolerance tp then Inr (Some False)
               else check_groups tp rvr throughput_limits rest failure_count'))"

text \<open>\<^verbatim>\<open>except Exception\<close> logs a warning and the call returns \<^verbatim>\<open>None\<close>.\<close>

definition throughput_pass_fail_check ::
  "test_params \<Rightarrow> int list \<Rightarrow> (int \<rightharpoonup> coex_result) \<Rightarrow> (int \<rightharpoonup> coex_result) json_file
     \<Rightarrow> bool option" where
  "throughput_pass_fail_check tp bt_atten_range rvr performance_file =
     (case get_throughput_limits tp bt_atten_range rvr performance_file of
        Inl e \<Rightarrow> None
      | Inr throughput_limits \<Rightarrow>
          (case check_groups tp rvr throughput_limits bt_atten_range 0 of
             Inl e \<Rightarrow> None
           | Inr verdict \<Rightarrow> verdict))"

section \<open>Instrument link: SocketInstrument\<close>

text \<open>
  A Python \<^verbatim>\<open>str\<close> is a list of code points and a \<^verbatim>\<open>bytes\<close> object a list of
  byte values, both as natural numbers. \<open>str\<close> turns a literal of the source into
  its code points.
\<close>

type_synonym unicode = "nat list"
type_synonym bytes = "nat list"

definition str :: "string \<Rightarrow> unicode" where
  "str s = map of_char s"

subsection \<open>The utf-8 codec\<close>

datatype codec = UTF_8

text \<open>\<^verbatim>\<open>str.encode('utf-8')\<close>; \<open>None\<close> is \<^verbatim>\<open>UnicodeEncodeError\<close> (a surrogate).\<close>

definition utf8_encode_cp :: "nat \<Rightarrow> bytes option" where
  "utf8_encode_cp c =
     (if c < 128 then Some [c]
      else if c < 2048 then Some [192 + c div 64, 128 + c mod 64]
      else if c < 65536 then
        (if 55296 \<le> c \<and> c < 57344 then None
         else Some [224 + c div 4096, 128 + (c div 64) mod 64, 128 + c mod 64])
      else if c < 1114112 then
        Some [240 + c div 262144, 128 + (c div 4096) mod 64, 128 + (c div 64) mod 64,
              128 + c mod 64]
      else None)"

fun utf8_encode :: "unicode \<Rightarrow> bytes option" where
  "utf8_encode [] = Some []"
| "utf8_encode (c # cs) =
     (case utf8_encode_cp c of
        None \<Rightarrow> None
      | Some bs \<Rightarrow> (case utf8_encode cs of None \<Rightarrow> None | Some rest \<Rightarrow> Some (bs @ rest)))"

definition is_cont :: "nat \<Rightarrow> bool" where
  "is_cont b = (128 \<le> b \<and> b < 192)"

text \<open>
  \<^verbatim>\<open>bytes.decode('utf-8')\<close> with strict error handling; \<open>None\<close> is
  \<^verbatim>\<open>UnicodeDecodeError\<close> (an invalid, truncated, overlong or surrogate sequence).
\<close>

fun utf8_decode :: "bytes \<Rightarrow> unicode option" where
  "utf8_decode [] = Some []"
| "utf8_decode (b0 # bs) =
     (if b0 < 128 then map_option (Cons b0) (utf8_decode bs)
      else if 194 \<le> b0 \<and> b0 < 224 then
        (case bs of
           b1 # r1 \<Rightarrow>
             if is_cont b1
             then map_option (Cons ((b0 - 192) * 64 + (b1 - 128))) (utf8_decode r1)
             else None
         | _ \<Rightarrow> None)
      else if 224 \<le> b0 \<and> b0 < 240 then
        (case bs of
           b1 # b2 # r2 \<Rightarrow>
             (let c = (b0 - 224) * 4096 + (b1 - 128) * 64 + (b2 - 128)
              in if is_cont b1 \<and> is_cont b2 \<and> 2048 \<le> c \<and> \<not> (55296 \<le> c \<and> c < 57344)
                 then map_option (Cons c) (utf8_decode r2)
                 else None)
         | _ \<Rightarrow> None)
      else if 240 \<le> b0 \<and> b0 < 245 then
        (case bs of
           b1 # b2 # b3 # r3 \<Rightarrow>
             (let c = (b0 - 240) * 262144 + (b1 - 128) * 4096 + (b2 - 128) * 64 + (b3 - 128)
              in if is_cont b1 \<and> is_cont b2 \<and> is_cont b3 \<and> 65536 \<le> c \<and> c < 1114112
                 then map_option (Cons c) (utf8_decode r3)
                 else None)
         | _ \<Rightarrow> None)
      else None)"

fun encode :: "codec \<Rightarrow> unicode \<Rightarrow> bytes option" where
  "encode UTF_8 t = utf8_encode t"

fun decode :: "codec \<Rightarrow> bytes \<Rightarrow> unicode option" where
  "decode UTF_8 bs = utf8_decode bs"

text \<open>\<^verbatim>\<open>str.rstrip(chars)\<close>: drops every trailing character that occurs in \<open>chars\<close>.\<close>

definition rstrip :: "unicode \<Rightarrow> unicode \<Rightarrow> unicode" where
  "rstrip chars t = rev (dropWhile (\<lambda>c. c \<in> set chars) (rev t))"

subsection \<open>The socket\<close>

text \<open>
  The socket was created with a timeout, so each call on it returns or raises. The
  peer is a script of what the coming \<^verbatim>\<open>recv\<close> calls meet: bytes that have arrived, or
  a fault (\<^verbatim>\<open>socket.timeout\<close> when nothing arrives in time, \<^verbatim>\<open>socket.error\<close>). When
  the script is used up the peer has closed the connection, and \<^verbatim>\<open>recv\<close> returns
  \<^verbatim>\<open>b''\<close>. \<open>send_fault\<close> is the fault a write meets, if any; \<open>outbox\<close> collects
  the bytes of each completed \<^verbatim>\<open>sendall\<close>.
\<close>

datatype fault = Timeout | SocketError

datatype event = Data bytes | Fault fault

record sock =
  outbox :: "bytes list"
  send_fault :: "fault option"
  inbox :: "event list"

definition sendall :: "sock \<Rightarrow> bytes \<Rightarrow> fault + sock" where
  "sendall s bs =
     (case send_fault s of
        Some f \<Rightarrow> Inl f
      | None \<Rightarrow> Inr (s\<lparr>outbox := outbox s @ [bs]\<rparr>))"

fun socket_recv :: "sock \<Rightarrow> nat \<Rightarrow> (fault + bytes) \<times> sock" where
  "socket_recv s bufsize =
     (case inbox s of
        [] \<Rightarrow> (Inr [], s)
      | Fault f # rest \<Rightarrow> (Inl f, s\<lparr>inbox := rest\<rparr>)
      | Data bs # rest \<Rightarrow>
          (Inr (take bufsize bs),
           s\<lparr>inbox := (if length bs \<le> bufsize then rest else Data (drop bufsize bs) # rest)\<rparr>))"

subsection \<open>The instrument\<close>

text \<open>
  The message of a \<^verbatim>\<open>SocketInstrumentError\<close> is kept as its kind and, for a send, the
  command. Exceptions that \<^verbatim>\<open>except Exception\<close> re-raises keep their own class.
\<close>

datatype errmsg = Send_timeout unicode | Send_error unicode | Recv_timeout | Recv_error

datatype inst_exn =
    SocketInstrumentError errmsg
  | AttributeError
  | UnicodeEncodeError
  | UnicodeDecodeError

record instrument =
  socket_timeout :: nat
  socket_buffer_size :: nat
  ip_addr :: string
  ip_port :: string
  escseq :: unicode
  codefmt :: codec
  socket :: "sock option"

definition SocketInstrument :: "string \<Rightarrow> string \<Rightarrow> instrument" where
  "SocketInstrument addr port =
     \<lparr>socket_timeout = 120, socket_buffer_size = 1024, ip_addr = addr, ip_port = port,
      escseq = str [CHR 0x0A], codefmt = UTF_8, socket = None\<rparr>"

definition send :: "instrument \<Rightarrow> unicode \<Rightarrow> (inst_exn + unit) \<times> instrument" where
  "send inst cmd =
     (let cmd_es = cmd @ escseq inst
      in case socket inst of
           None \<Rightarrow> (Inl AttributeError, inst)
         | Some s \<Rightarrow>
             (case encode (codefmt inst) cmd_es of
                None \<Rightarrow> (Inl UnicodeEncodeError, inst)
              | Some bs \<Rightarrow>
                  (case sendall s bs of
                     Inl Timeout \<Rightarrow> (Inl (SocketInstrumentError (Send_timeout cmd)), inst)
                   | Inl SocketError \<Rightarrow> (Inl (SocketInstrumentError (Send_error cmd)), inst)
                   | Inr s' \<Rightarrow> (Inr (), inst\<lparr>socket := Some s'\<rparr>))))"

text \<open>
  The \<^verbatim>\<open>while True\<close> loop of \<^verbatim>\<open>_recv\<close> with the handlers around it. Nothing in the
  loop bounds the number of turns, so the function is partial: \<open>None\<close> is a loop that
  never ends.
\<close>

partial_function (option) recv_loop ::
  "instrument \<Rightarrow> sock \<Rightarrow> unicode \<Rightarrow> ((inst_exn + unicode) \<times> sock) option" where
  "recv_loop inst s resp =
     (case socket_recv s (socket_buffer_size inst) of
        (Inl Timeout, s') \<Rightarrow> Some (Inl (SocketInstrumentError Recv_timeout), s')
      | (Inl SocketError, s') \<Rightarrow> Some (Inl (SocketInstrumentError Recv_error), s')
      | (Inr chunk, s') \<Rightarrow>
          (case decode (codefmt inst) chunk of
             None \<Rightarrow> Some (Inl UnicodeDecodeError, s')
           | Some resp_tmp \<Rightarrow>
               if length resp_tmp < socket_buffer_size inst
               then Some (Inr (resp @ resp_tmp), s')
               else recv_loop inst s' (resp @ resp_tmp)))"

definition recv :: "instrument \<Rightarrow> ((inst_exn + unicode) \<times> instrument) option" where
  "recv inst =
     (case socket inst of
        None \<Rightarrow> Some (Inl AttributeError, inst)
      | Some s \<Rightarrow>
          (case recv_loop inst s [] of
             None \<Rightarrow> None
           | Some (Inl e, s') \<Rightarrow> Some (Inl e, inst\<lparr>socket := Some s'\<rparr>)
           | Some (Inr resp, s') \<Rightarrow>
               Some (Inr (rstrip (escseq inst) resp), inst\<lparr>socket := Some s'\<rparr>)))"

definition query :: "instrument \<Rightarrow> unicode \<Rightarrow> ((inst_exn + unicode) \<times> instrument) option" where
  "query inst cmd =
     (case send inst (cmd @ str '';*OPC?'') of
        (Inl e, inst') \<Rightarrow> Some (Inl e, inst')
      | (Inr u, inst') \<Rightarrow> recv inst')"

section \<open>Reference notions used by the properties\<close>

text \<open>
  The values of the reference points selected for a point: \<open>vals\<close> read at the \<open>k\<close>
  closest indices.
\<close>

definition selected_values :: "nat \<Rightarrow> real list \<Rightarrow> real \<Rightarrow> real list \<Rightarrow> real list" where
  "selected_values k vals current_att ref_attenuation =
     map ((!) vals) (closest_indeces k (att_distances current_att ref_attenuation))"

text \<open>
  The tolerance band as the specification words it, from the smallest and the largest of
  the selected values.
\<close>

definition spec_band :: "test_params \<Rightarrow> real list \<Rightarrow> real \<times> real" where
  "spec_band tp vs =
     (max (Min (set vs) - max (abs_tolerance tp) (Min (set vs) * pct_tolerance tp / 100)) 0,
      Max (set vs) + max (abs_tolerance tp) (Max (set vs) * pct_tolerance tp / 100))"

text \<open>
  Reference point \<open>i\<close> is nearer than \<open>j\<close>: its distance is smaller, or the distances
  are equal and \<open>i\<close> comes first. \<open>entry_before\<close> is the same order on the pairs of
  index and distance that the source sorts.
\<close>


definition nearer :: "real list \<Rightarrow> nat \<Rightarrow> nat \<Rightarrow> bool" where
  "nearer dists i j = (dists ! i < dists ! j \<or> (dists ! i = dists ! j \<and> i < j))"

definition entry_before :: "nat \<times> real \<Rightarrow> nat \<times> real \<Rightarrow> bool" where
  "entry_before a b = (snd a < snd b \<or> (snd a = snd b \<and> fst a < fst b))"

text \<open>
  The number of points strictly outside their limits in one group and over all groups of
  a coexistence sweep; whether point \<open>idx\<close> of an RvR sweep is beyond its limits; and
  the shape of the limits of one group.
\<close>

definition points_outside :: "real list \<Rightarrow> real list \<Rightarrow> real list \<Rightarrow> nat" where
  "points_outside thr los his =
     length (filter (\<lambda>(x, lo, hi). x < lo \<or> hi < x) (zip thr (zip los his)))"

definition failing_points :: "(int \<rightharpoonup> coex_result) \<Rightarrow> (int \<rightharpoonup> limits) \<Rightarrow> int list \<Rightarrow> int" where
  "failing_points rvr throughput_limits bt_atten_range =
     (\<Sum>bt_atten\<leftarrow>bt_atten_range.
        case (rvr bt_atten, throughput_limits bt_atten) of
          (Some rvr_bt, Some l) \<Rightarrow>
            int (points_outside (throughput_received rvr_bt) (lower_limit l) (upper_limit l))
        | _ \<Rightarrow> 0)"

definition rvr_point_fails :: "test_params \<Rightarrow> rvr_result \<Rightarrow> rvr_result \<Rightarrow> nat \<Rightarrow> bool" where
  "rvr_point_fails tp gldn_results rvr idx =
     (case rvr_limits tp gldn_results rvr
             (map (\<lambda>att. att + fixed_attenuation gldn_results) (attenuation gldn_results)) idx of
        Inl e \<Rightarrow> False
      | Inr (current_att, rng) \<Rightarrow> beyond_limits tp (throughput_receive rvr ! idx) rng)"

definition group_ok :: "(int \<rightharpoonup> coex_result) \<Rightarrow> (int \<rightharpoonup> limits) \<Rightarrow> int \<Rightarrow> bool" where
  "group_ok rvr lims bt =
     (case (rvr bt, lims bt) of
        (Some rvr_bt, Some l) \<Rightarrow>
          length (lower_limit l) = length (throughput_received rvr_bt) \<and>
          length (upper_limit l) = length (throughput_received rvr_bt) \<and>
          (throughput_received rvr_bt \<noteq> [] \<longrightarrow>
             length (throughput_received rvr_bt) \<le> length (attenuation rvr_bt))
      | _ \<Rightarrow> False)"

text \<open>
  What is still to come on a socket: one for every event of the script and one for every
  byte that has arrived. It decreases with every read that returns a full chunk.
\<close>

fun event_size :: "event \<Rightarrow> nat" where
  "event_size (Data bs) = Suc (length bs)"
| "event_size (Fault f) = Suc 0"

definition pending :: "sock \<Rightarrow> nat" where
  "pending s = sum_list (map event_size (inbox s))"

section \<open>Properties of the comparators\<close>

subsection \<open>Reading the selected values\<close>

lemma lookup_all_Inr:
  "lookup_all vals idxs = Inr vs \<Longrightarrow> vs = map ((!) vals) idxs \<and> (\<forall>i\<in>set idxs. i < length vals)"
  by (induction idxs arbitrary: vs) (auto split: if_splits sum.splits)

lemma lookup_all_in_range:
  "\<forall>i\<in>set idxs. i < length vals \<Longrightarrow> lookup_all vals idxs = Inr (map ((!) vals) idxs)"
  by (induction idxs) auto

lemma sorted_nth0_Min:
  fixes xs :: "real list"
  assumes "sorted xs" "xs \<noteq> []"
  shows "xs ! 0 = Min (set xs)"
proof -
  obtain y ys where xs: "xs = y # ys" using assms(2) by (cases xs) auto
  have "Min (set xs) = y"
    using assms(1) unfolding xs by (intro Min_eqI) auto
  then show ?thesis by (simp add: xs)
qed

lemma sorted_last_Max:
  fixes xs :: "real list"
  assumes "sorted xs" "xs \<noteq> []"
  shows "last xs = Max (set xs)"
proof -
  have "Max (set xs) = last xs"
  proof (rule Max_eqI)
    fix y assume "y \<in> set xs"
    then obtain i where i: "i < length xs" "xs ! i = y" by (auto simp: in_set_conv_nth)
    have "xs ! i \<le> xs ! (length xs - 1)"
      using assms(1) i(1) by (intro sorted_nth_mono) auto
    then show "y \<le> last xs" using i assms(2) by (simp add: last_conv_nth)
  qed (use assms in auto)
  then show ?thesis by simp
qed

lemma closest_throughputs_Inr:
  assumes "closest_throughputs vals idxs = Inr cts"
  shows "cts = sort (map ((!) vals) idxs)" "\<forall>i\<in>set idxs. i < length vals"
    "length cts = length idxs" "set cts = set (map ((!) vals) idxs)"
  using assms lookup_all_Inr[of vals idxs]
  by (auto simp: closest_throughputs_def split: sum.splits)

lemma closest_throughputs_band:
  assumes "closest_throughputs vals idxs = Inr cts" "cts \<noteq> []"
  shows "cts ! 0 = Min (set (map ((!) vals) idxs))" "last cts = Max (set (map ((!) vals) idxs))"
proof -
  have s: "sorted cts" using closest_throughputs_Inr(1)[OF assms(1)] by simp
  show "cts ! 0 = Min (set (map ((!) vals) idxs))"
    using sorted_nth0_Min[OF s assms(2)] closest_throughputs_Inr(4)[OF assms(1)] by simp
  show "last cts = Max (set (map ((!) vals) idxs))"
    using sorted_last_Max[OF s assms(2)] closest_throughputs_Inr(4)[OF assms(1)] by simp
qed

lemma rvr_band:
  assumes "rvr_limits tp gldn_results rvr gldn_attenuation idx = Inr (current_att, rng)"
  shows "current_att = attenuation rvr ! idx + fixed_attenuation rvr \<and>
         rng = [fst (spec_band tp (selected_values 2 (throughput_receive gldn_results)
                   current_att gldn_attenuation)),
                snd (spec_band tp (selected_values 2 (throughput_receive gldn_results)
                   current_att gldn_attenuation))]"
proof -
  let ?ca = "attenuation rvr ! idx + fixed_attenuation rvr"
  let ?idxs = "closest_indeces 2 (att_distances ?ca gldn_attenuation)"
  from assms obtain cts where
    ca: "current_att = ?ca" and
    cts: "closest_throughputs (throughput_receive gldn_results) ?idxs = Inr cts" and
    rng: "allowed_throughput_range tp cts = Inr rng"
    by (auto simp: rvr_limits_def Let_def split: if_splits sum.splits)
  from rng have len: "length cts = 2" "cts \<noteq> []"
    using closest_throughputs_Inr(3)[OF cts]
    by (auto simp: allowed_throughput_range_def closest_indeces_def split: if_splits)
  have l: "last cts = cts ! 1" using len by (simp add: last_conv_nth)
  show ?thesis
    using rng closest_throughputs_band[OF cts len(2)] len l
    by (auto simp: allowed_throughput_range_def spec_band_def selected_values_def ca
        split: if_splits)
qed

lemma coex_band:
  assumes "coex_limits tp rvr_bt performance_bt (Some perf_att) idx = Inr (current_att, lo, hi)"
  shows "current_att = attenuation rvr_bt ! idx + fixed_attenuation rvr_bt \<and>
         (lo, hi) = spec_band tp (selected_values 3 (throughput_received performance_bt)
                   current_att perf_att)"
proof -
  let ?ca = "attenuation rvr_bt ! idx + fixed_attenuation rvr_bt"
  let ?idxs = "closest_indeces 3 (att_distances ?ca perf_att)"
  from assms obtain cts where
    ca: "current_att = ?ca" and
    cts: "closest_throughputs (throughput_received performance_bt) ?idxs = Inr cts" and
    ne: "cts \<noteq> []" and
    lo: "lo = max (cts ! 0 - max (abs_tolerance tp) (cts ! 0 * pct_tolerance tp / 100)) 0" and
    hi: "hi = last cts + max (abs_tolerance tp) (last cts * pct_tolerance tp / 100)"
    by (auto simp: coex_limits_def Let_def split: if_splits sum.splits)
  show ?thesis
    using closest_throughputs_band[OF cts ne]
    by (simp add: spec_band_def selected_values_def ca lo hi)
qed

lemmas comparator_defs =
  pass_fail_check_def rvr_limits_def closest_throughputs_def closest_indeces_def
  sorted_distances_def att_distances_def allowed_throughput_range_def beyond_limits_def
  throughput_distance_def throughput_pass_fail_check_def get_throughput_limits_def
  group_limits_def total_attenuation_def coex_limits_def outside_limits_def
  selected_values_def

subsection \<open>The tolerance band\<close>

text \<open>
  C1. For every point that is compared, the allowed range is the band of the
  specification taken over the values of the selected reference points: the lower limit
  is the smallest selected value minus the larger of the absolute tolerance and the
  percentage of that value, floored at 0, and the upper limit is the largest selected
  value plus the larger of the absolute tolerance and the percentage of that value. The
  RvR check selects with k = 2 and the coexistence limits with k = 3.
\<close>

theorem tolerance_band_formula:
  "(rvr_limits tp gldn_results rvr gldn_attenuation idx = Inr (current_att, rng) \<longrightarrow>
      current_att = attenuation rvr ! idx + fixed_attenuation rvr \<and>
      rng = [fst (spec_band tp (selected_values 2 (throughput_receive gldn_results)
                     current_att gldn_attenuation)),
             snd (spec_band tp (selected_values 2 (throughput_receive gldn_results)
                     current_att gldn_attenuation))]) \<and>
   (coex_limits tp rvr_bt performance_bt (Some perf_att) idx' = Inr (current_att', lo, hi) \<longrightarrow>
      current_att' = attenuation rvr_bt ! idx' + fixed_attenuation rvr_bt \<and>
      (lo, hi) = spec_band tp (selected_values 3 (throughput_received performance_bt)
                     current_att' perf_att))"
  using rvr_band coex_band by blast

theorem tolerance_band_formula_witness:
  "rvr_limits \<lparr>abs_tolerance = 5, pct_tolerance = 10, failure_count_tolerance = 1,
        has_fixed_attenuation = True\<rparr>
      \<lparr>fixed_attenuation = 0, attenuation = [0, 10, 20], throughput_receive = [100, 80, 50]\<rparr>
      \<lparr>fixed_attenuation = 0, attenuation = [10], throughput_receive = [75]\<rparr>
      [0, 10, 20] 0 = Inr (10, [72, 110]) \<and>
   coex_limits \<lparr>abs_tolerance = 5, pct_tolerance = 10, failure_count_tolerance = 1,
        has_fixed_attenuation = True\<rparr>
      \<lparr>fixed_attenuation = 0, attenuation = [10], throughput_received = [75]\<rparr>
      \<lparr>fixed_attenuation = 0, attenuation = [0, 10, 20], throughput_received = [100, 80, 50]\<rparr>
      (Some [0, 10, 20]) 0 = Inr (10, 45, 110) \<and>
   spec_band \<lparr>abs_tolerance = 5, pct_tolerance = 10, failure_count_tolerance = 1,
        has_fixed_attenuation = True\<rparr>
      (selected_values 2 [100, 80, 50] 10 [0, 10, 20]) = (72, 110) \<and>
   spec_band \<lparr>abs_tolerance = 5, pct_tolerance = 10, failure_count_tolerance = 1,
        has_fixed_attenuation = True\<rparr>
      (selected_values 3 [100, 80, 50] 10 [0, 10, 20]) = (45, 110)"
proof -
  let ?tp = "\<lparr>abs_tolerance = 5, pct_tolerance = 10, failure_count_tolerance = 1,
        has_fixed_attenuation = True\<rparr>"
  let ?g = "\<lparr>fixed_attenuation = 0, attenuation = [0, 10, 20],
        throughput_receive = [100, 80, 50]\<rparr>"
  let ?r = "\<lparr>fixed_attenuation = 0, attenuation = [10], throughput_receive = [75]\<rparr>"
  let ?p = "\<lparr>fixed_attenuation = 0, attenuation = [0, 10, 20],
        throughput_received = [100, 80, 50]\<rparr>"
  let ?c = "\<lparr>fixed_attenuation = 0, attenuation = [10], throughput_received = [75]\<rparr>"
  have h1: "rvr_limits ?tp ?g ?r [0, 10, 20] 0 = Inr (10, [72, 110])"
    by (simp add: comparator_defs)
  have h2: "coex_limits ?tp ?c ?p (Some [0, 10, 20]) 0 = Inr (10, 45, 110)"
    by (simp add: comparator_defs)
  from tolerance_band_formula
    [of ?tp ?g ?r "[0, 10, 20]" 0 10 "[72, 110]" ?c ?p "[0, 10, 20]" 0 10 45 110] h1 h2
  have "[72, 110] = [fst (spec_band ?tp (selected_values 2 [100, 80, 50] 10 [0, 10, 20])),
                     snd (spec_band ?tp (selected_values 2 [100, 80, 50] 10 [0, 10, 20]))]"
    and "(45, 110) = spec_band ?tp (selected_values 3 [100, 80, 50] 10 [0, 10, 20])"
    by simp_all
  then have "spec_band ?tp (selected_values 2 [100, 80, 50] 10 [0, 10, 20]) = (72, 110)"
    and "spec_band ?tp (selected_values 3 [100, 80, 50] 10 [0, 10, 20]) = (45, 110)"
    by (simp_all add: prod_eq_iff)
  with h1 h2 show ?thesis by blast
qed

subsection \<open>When a point fails\<close>

text \<open>
  The RvR check compares the distance to each limit with the absolute tolerance once
  more: a value below the lower limit by less than the absolute tolerance is not a
  failure there. Here the band is [72, 110] and the measured 70 passes.
\<close>


theorem strict_band_failure_counterexample:
  "rvr_limits \<lparr>abs_tolerance = 5, pct_tolerance = 10, failure_count_tolerance = 1,
        has_fixed_attenuation = True\<rparr>
      \<lparr>fixed_attenuation = 0, attenuation = [0, 10, 20], throughput_receive = [100, 80, 50]\<rparr>
      \<lparr>fixed_attenuation = 0, attenuation = [10], throughput_receive = [70]\<rparr>
      [0, 10, 20] 0 = Inr (10, [72, 110]) \<and>
   (70 :: real) < 72 \<and>
   \<not> beyond_limits \<lparr>abs_tolerance = 5, pct_tolerance = 10, failure_count_tolerance = 1,
        has_fixed_attenuation = True\<rparr> 70 [72, 110] \<and>
   pass_fail_check \<lparr>abs_tolerance = 5, pct_tolerance = 10, failure_count_tolerance = 1,
        has_fixed_attenuation = True\<rparr>
      (Loaded \<lparr>fixed_attenuation = 0, attenuation = [0, 10, 20],
         throughput_receive = [100, 80, 50]\<rparr>)
      \<lparr>fixed_attenuation = 0, attenuation = [10], throughput_receive = [70]\<rparr> = TestPass"
  by (simp add: comparator_defs)

text \<open>
  C2 (as the code has it). In the RvR check a compared point is beyond its limits
  exactly when its value is below the lower limit minus the absolute tolerance or above
  the upper limit plus the absolute tolerance, and the loop fails at such a point and
  goes on otherwise. In the coexistence check a point with limits adds one to the
  failure count exactly when its value is strictly below its lower or strictly above its
  upper limit, so a value equal to either limit is not counted.
\<close>

theorem point_failure_criterion:
  "(rvr_limits tp gldn_results rvr gldn_attenuation idx = Inr (current_att, rng) \<longrightarrow>
      (\<exists>lo hi. rng = [lo, hi] \<and>
         (beyond_limits tp current_throughput rng \<longleftrightarrow>
            current_throughput < lo - abs_tolerance tp \<or>
            current_throughput > hi + abs_tolerance tp)) \<and>
      rvr_loop tp gldn_results rvr gldn_attenuation idx (current_throughput # rest) =
        (if beyond_limits tp current_throughput rng
         then TestFailure current_att current_throughput rng
         else rvr_loop tp gldn_results rvr gldn_attenuation (Suc idx) rest)) \<and>
   (idx' < length (attenuation rvr_bt) \<and> idx' < length (lower_limit l) \<and>
    idx' < length (upper_limit l) \<longrightarrow>
      count_loop rvr_bt (Some l) idx' (current_throughput' # rest') failure_count =
        count_loop rvr_bt (Some l) (Suc idx') rest'
          (if current_throughput' < lower_limit l ! idx' \<or>
              current_throughput' > upper_limit l ! idx'
           then failure_count + 1 else failure_count))"
proof -
  have "\<exists>lo hi. rng = [lo, hi]"
    if "rvr_limits tp gldn_results rvr gldn_attenuation idx = Inr (current_att, rng)"
    using rvr_band[OF that] by blast
  then show ?thesis
    by (auto simp: beyond_limits_def throughput_distance_def outside_limits_def)
qed

theorem point_failure_criterion_witness:
  "rvr_limits \<lparr>abs_tolerance = 5, pct_tolerance = 10, failure_count_tolerance = 1,
        has_fixed_attenuation = True\<rparr>
      \<lparr>fixed_attenuation = 0, attenuation = [0, 10, 20], throughput_receive = [100, 80, 50]\<rparr>
      \<lparr>fixed_attenuation = 0, attenuation = [10], throughput_receive = [60]\<rparr>
      [0, 10, 20] 0 = Inr (10, [72, 110]) \<and>
   rvr_loop \<lparr>abs_tolerance = 5, pct_tolerance = 10, failure_count_tolerance = 1,
        has_fixed_attenuation = True\<rparr>
      \<lparr>fixed_attenuation = 0, attenuation = [0, 10, 20], throughput_receive = [100, 80, 50]\<rparr>
      \<lparr>fixed_attenuation = 0, attenuation = [10], throughput_receive = [60]\<rparr>
      [0, 10, 20] 0 [60] = TestFailure 10 60 [72, 110] \<and>
   count_loop \<lparr>fixed_attenuation = 0, attenuation = [10], throughput_received = [45]\<rparr>
      (Some \<lparr>x_attenuation = [10], lower_limit = [45], upper_limit = [110]\<rparr>) 0 [45] 0
     = Inr 0"
proof -
  let ?tp = "\<lparr>abs_tolerance = 5, pct_tolerance = 10, failure_count_tolerance = 1,
        has_fixed_attenuation = True\<rparr>"
  let ?g = "\<lparr>fixed_attenuation = 0, attenuation = [0, 10, 20],
        throughput_receive = [100, 80, 50]\<rparr>"
  let ?r = "\<lparr>fixed_attenuation = 0, attenuation = [10], throughput_receive = [60]\<rparr>"
  let ?c = "\<lparr>fixed_attenuation = 0, attenuation = [10], throughput_received = [45]\<rparr>"
  let ?l = "\<lparr>x_attenuation = [10], lower_limit = [45], upper_limit = [110]\<rparr>"
  have h: "rvr_limits ?tp ?g ?r [0, 10, 20] 0 = Inr (10, [72, 110])"
    by (simp add: comparator_defs)
  from point_failure_criterion
    [of ?tp ?g ?r "[0, 10, 20]" 0 10 "[72, 110]" 60 "[]" 0 ?c ?l 45 "[]" 0] h
  show ?thesis by (simp add: beyond_limits_def throughput_distance_def)
qed

subsection \<open>An empty sweep\<close>

text \<open>
  The RvR check has no "no data" outcome: with a loaded golden file and no measured
  point, the loop body never runs and the check ends in the explicit pass.
\<close>


theorem empty_sweep_passes_counterexample:
  "pass_fail_check
      \<lparr>abs_tolerance = 5, pct_tolerance = 10, failure_count_tolerance = 1,
        has_fixed_attenuation = True\<rparr>
      (Loaded \<lparr>fixed_attenuation = 0, attenuation = [0, 10, 20],
         throughput_receive = [100, 80, 50]\<rparr>)
      \<lparr>fixed_attenuation = 0, attenuation = [], throughput_receive = []\<rparr> = TestPass"
  by (simp add: pass_fail_check_def)

text \<open>
  C6 (as the code has it). If the sweep holds no measured point and the golden file
  loads, \<^const>\<open>pass_fail_check\<close> ends in the pass signal, whatever the tolerances and
  the golden data are.
\<close>

theorem empty_sweep_passes:
  "throughput_receive rvr = [] \<Longrightarrow> pass_fail_check tp (Loaded gldn_results) rvr = TestPass"
  by (simp add: pass_fail_check_def)

theorem empty_sweep_passes_witness:
  "throughput_receive \<lparr>fixed_attenuation = 3, attenuation = [0, 10], throughput_receive = []\<rparr> = [] \<and>
   pass_fail_check
      \<lparr>abs_tolerance = 0, pct_tolerance = 0, failure_count_tolerance = 0,
        has_fixed_attenuation = False\<rparr>
      (Loaded \<lparr>fixed_attenuation = 0, attenuation = [], throughput_receive = []\<rparr>)
      \<lparr>fixed_attenuation = 3, attenuation = [0, 10], throughput_receive = []\<rparr> = TestPass"
proof -
  have h: "throughput_receive
      \<lparr>fixed_attenuation = 3, attenuation = [0, 10], throughput_receive = []\<rparr> = []"
    by simp
  from empty_sweep_passes[OF h] h show ?thesis by blast
qed


subsection \<open>Selecting the nearest reference points\<close>

lemma entry_before_insort:
  "sorted_wrt entry_before ys \<Longrightarrow> \<forall>y\<in>set ys. fst x < fst y \<Longrightarrow>
     sorted_wrt entry_before (insort_key snd x ys)"
proof (induction ys)
  case Nil
  then show ?case by simp
next
  case (Cons y ys)
  show ?case
  proof (cases "snd x \<le> snd y")
    case True
    have "entry_before x z" if "z \<in> set (y # ys)" for z
    proof -
      have "snd y \<le> snd z" using that Cons.prems(1) by (auto simp: entry_before_def)
      moreover have "fst x < fst z" using that Cons.prems(2) by blast
      ultimately show ?thesis using True by (auto simp: entry_before_def)
    qed
    then show ?thesis using True Cons.prems(1) by simp
  next
    case False
    then have "entry_before y x" by (simp add: entry_before_def)
    moreover have "sorted_wrt entry_before (insort_key snd x ys)"
      using Cons by simp
    ultimately show ?thesis using False Cons.prems(1) by (auto simp: set_insort_key)
  qed
qed

lemma entry_before_sort_enumerate:
  "sorted_wrt entry_before (sort_key snd (enumerate n dists))"
proof (induction dists arbitrary: n)
  case Nil
  then show ?case by simp
next
  case (Cons d dists)
  have "\<forall>y\<in>set (sort_key snd (enumerate (Suc n) dists)). fst (n, d) < fst y"
    by (auto simp: in_set_enumerate_eq)
  with Cons[of "Suc n"] show ?case
    by (simp add: entry_before_insort)
qed

lemma set_sorted_distances:
  "set (sorted_distances dists) = {(i, dists ! i) | i. i < length dists}"
  by (auto simp: sorted_distances_def in_set_enumerate_eq)

lemma distinct_fst_sorted_distances: "distinct (map fst (sorted_distances dists))"
proof -
  have "distinct (sorted_distances dists)"
    by (simp add: sorted_distances_def distinct_enumerate)
  moreover have "inj_on fst (set (sorted_distances dists))"
    by (auto simp: set_sorted_distances inj_on_def)
  ultimately show ?thesis by (simp add: distinct_map)
qed

lemma length_closest_indeces: "length (closest_indeces k dists) = min k (length dists)"
  by (simp add: closest_indeces_def sorted_distances_def)

lemma distinct_closest_indeces: "distinct (closest_indeces k dists)"
  using distinct_fst_sorted_distances[of dists]
  by (simp add: closest_indeces_def take_map[symmetric] distinct_take)

lemma closest_indeces_in_range: "i \<in> set (closest_indeces k dists) \<Longrightarrow> i < length dists"
proof -
  assume "i \<in> set (closest_indeces k dists)"
  then obtain a where "a \<in> set (take k (sorted_distances dists))" "fst a = i"
    by (auto simp: closest_indeces_def)
  then have "a \<in> set (sorted_distances dists)" by (auto dest: in_set_takeD)
  then show ?thesis using \<open>fst a = i\<close> by (auto simp: set_sorted_distances)
qed

lemma closest_indeces_nearer_than_rest:
  assumes "i \<in> set (closest_indeces k dists)" "j < length dists"
    "j \<notin> set (closest_indeces k dists)"
  shows "nearer dists i j"
proof -
  let ?S = "sorted_distances dists"
  have "sorted_wrt entry_before ?S"
    using entry_before_sort_enumerate[of 0 dists] by (simp add: sorted_distances_def)
  then have S: "\<forall>x\<in>set (take k ?S). \<forall>y\<in>set (drop k ?S). entry_before x y"
    using sorted_wrt_append[of entry_before "take k ?S" "drop k ?S"] by simp
  from assms(1) obtain a where a: "a \<in> set (take k ?S)" "fst a = i"
    by (auto simp: closest_indeces_def)
  then have "a \<in> set ?S" by (auto dest: in_set_takeD)
  then have a_eq: "a = (i, dists ! i)" using a(2) by (auto simp: set_sorted_distances)
  have "(j, dists ! j) \<in> set ?S" using assms(2) by (auto simp: set_sorted_distances)
  then have "(j, dists ! j) \<in> set (take k ?S) \<union> set (drop k ?S)"
    by (metis append_take_drop_id set_append)
  moreover have "(j, dists ! j) \<notin> set (take k ?S)"
    using assms(3) by (force simp: closest_indeces_def)
  ultimately have "(j, dists ! j) \<in> set (drop k ?S)" by blast
  with S a(1) have "entry_before a (j, dists ! j)"
    by blast
  then show ?thesis by (simp add: a_eq entry_before_def nearer_def)
qed

lemma closest_indeces_ordered: "sorted_wrt (nearer dists) (closest_indeces k dists)"
proof -
  let ?S = "sorted_distances dists"
  have "sorted_wrt entry_before (take k ?S)"
    using entry_before_sort_enumerate[of 0 dists]
    by (simp add: sorted_distances_def sorted_wrt_take)
  moreover have "nearer dists (fst a) (fst b)"
    if "a \<in> set (take k ?S)" "b \<in> set (take k ?S)" "entry_before a b" for a b
  proof -
    have "a \<in> set ?S" "b \<in> set ?S" using that by (auto dest: in_set_takeD)
    then show ?thesis using that(3)
      by (auto simp: set_sorted_distances entry_before_def nearer_def)
  qed
  ultimately have "sorted_wrt (\<lambda>a b. nearer dists (fst a) (fst b)) (take k ?S)"
    by (rule sorted_wrt_mono_rel[rotated])
  then show ?thesis by (simp add: closest_indeces_def sorted_wrt_map)
qed

lemma nth_att_distances:
  "j < length ref \<Longrightarrow> att_distances current_att ref ! j = \<bar>current_att - ref ! j\<bar>"
  by (simp add: att_distances_def)

text \<open>
  C3. The indices selected for a point with effective attenuation \<open>current_att\<close> among
  reference points with effective attenuations \<open>total_att\<close> are \<open>k\<close> distinct
  reference indices (all of them when there are fewer than \<open>k\<close>); the distance of a
  reference point is the absolute difference of the effective attenuations; every
  selected index is nearer than every index left out, where equal distances are ordered
  by ascending index; and the selected indices are listed in that order. The RvR check
  selects with \<open>k = 2\<close>, the coexistence limits with \<open>k = 3\<close>.
\<close>

theorem k_nearest_selection:
  "length (closest_indeces k (att_distances current_att total_att)) = min k (length total_att) \<and>
   distinct (closest_indeces k (att_distances current_att total_att)) \<and>
   (\<forall>i\<in>set (closest_indeces k (att_distances current_att total_att)). i < length total_att) \<and>
   (\<forall>j<length total_att.
      att_distances current_att total_att ! j = \<bar>current_att - total_att ! j\<bar>) \<and>
   (\<forall>i\<in>set (closest_indeces k (att_distances current_att total_att)).
      \<forall>j<length total_att.
        j \<notin> set (closest_indeces k (att_distances current_att total_att)) \<longrightarrow>
        nearer (att_distances current_att total_att) i j) \<and>
   sorted_wrt (nearer (att_distances current_att total_att))
     (closest_indeces k (att_distances current_att total_att))"
proof -
  define dists where "dists = att_distances current_att total_att"
  have len: "length dists = length total_att" by (simp add: dists_def att_distances_def)
  show ?thesis
    unfolding dists_def[symmetric]
    using length_closest_indeces[of k dists] distinct_closest_indeces[of k dists]
      closest_indeces_in_range[of _ k dists] closest_indeces_nearer_than_rest[of _ k dists]
      closest_indeces_ordered[of dists k] nth_att_distances[of _ total_att current_att]
    by (auto simp: len dists_def[symmetric])
qed

theorem k_nearest_selection_witness:
  "closest_indeces 2 (att_distances 10 [0, 10, 20]) = [1, 0] \<and>
   closest_indeces 3 (att_distances 10 [0, 10, 20]) = [1, 0, 2] \<and>
   att_distances 10 [0, 10, 20] = [10, 0, 10] \<and>
   (2 :: nat) < length [0, 10, 20 :: real] \<and>
   nearer (att_distances 10 [0, 10, 20]) 0 2 \<and>
   nearer (att_distances 10 [0, 10, 20]) 1 0"
proof -
  have s2: "closest_indeces 2 (att_distances 10 [0, 10, 20]) = [1, 0]"
    and s3: "closest_indeces 3 (att_distances 10 [0, 10, 20]) = [1, 0, 2]"
    and d: "att_distances 10 [0, 10, 20] = [10, 0, 10]"
    by (simp_all add: closest_indeces_def sorted_distances_def att_distances_def)
  from k_nearest_selection[of 2 10 "[0, 10, 20]"]
  have "\<forall>i\<in>set [1, 0 :: nat]. \<forall>j<3. j \<notin> set [1, 0 :: nat] \<longrightarrow>
          nearer (att_distances 10 [0, 10, 20]) i j"
    and "sorted_wrt (nearer (att_distances 10 [0, 10, 20])) [1, 0]"
    unfolding s2 by simp_all
  then have "nearer (att_distances 10 [0, 10, 20]) 0 2"
    and "nearer (att_distances 10 [0, 10, 20]) 1 0"
    by simp_all
  with s2 s3 d show ?thesis by simp
qed

subsection \<open>Aggregation\<close>

lemma limits_loop_Inr:
  assumes "limits_loop tp rvr_bt performance_bt pa idx ys acc = Inr l"
  shows "\<exists>los his. lower_limit l = lower_limit acc @ los \<and> upper_limit l = upper_limit acc @ his \<and>
           length los = length ys \<and> length his = length ys \<and>
           (ys \<noteq> [] \<longrightarrow> idx + length ys \<le> length (attenuation rvr_bt)) \<and>
           (\<forall>i<length ys. \<exists>att. coex_limits tp rvr_bt performance_bt pa (idx + i) =
               Inr (att, los ! i, his ! i))"
  using assms
proof (induction ys arbitrary: idx acc)
  case Nil
  then show ?case by simp
next
  case (Cons y ys)
  from Cons.prems obtain att lo hi where
    c: "coex_limits tp rvr_bt performance_bt pa idx = Inr (att, lo, hi)" and
    r: "limits_loop tp rvr_bt performance_bt pa (Suc idx) ys
          (acc\<lparr>x_attenuation := x_attenuation acc @ [att],
               lower_limit := lower_limit acc @ [lo],
               upper_limit := upper_limit acc @ [hi]\<rparr>) = Inr l"
    by (auto split: sum.splits)
  from Cons.IH[OF r] obtain los his where
    IH: "lower_limit l = (lower_limit acc @ [lo]) @ los"
      "upper_limit l = (upper_limit acc @ [hi]) @ his"
      "length los = length ys" "length his = length ys"
      "ys \<noteq> [] \<longrightarrow> Suc idx + length ys \<le> length (attenuation rvr_bt)"
      "\<forall>i<length ys. \<exists>att. coex_limits tp rvr_bt performance_bt pa (Suc idx + i) =
               Inr (att, los ! i, his ! i)"
    by auto
  have idx: "idx < length (attenuation rvr_bt)"
    using c by (auto simp: coex_limits_def split: if_splits)
  have bound: "idx + length (y # ys) \<le> length (attenuation rvr_bt)"
    using IH(5) idx by (cases ys) auto
  have pts: "\<exists>att. coex_limits tp rvr_bt performance_bt pa (idx + i) =
             Inr (att, (lo # los) ! i, (hi # his) ! i)"
    if "i < length (y # ys)" for i
  proof (cases i)
    case 0
    then show ?thesis using c by simp
  next
    case (Suc i')
    then have "i' < length ys" using that by simp
    with IH(6) show ?thesis using Suc by simp
  qed
  have "lower_limit l = lower_limit acc @ (lo # los)" "upper_limit l = upper_limit acc @ (hi # his)"
    "length (lo # los) = length (y # ys)" "length (hi # his) = length (y # ys)"
    using IH by simp_all
  with bound pts show ?case by blast
qed

lemma group_limits_Inr:
  assumes "group_limits tp rvr performance_results bt = Inr l"
  shows "\<exists>rvr_bt performance_bt. rvr bt = Some rvr_bt \<and> performance_results bt = Some performance_bt \<and>
           length (lower_limit l) = length (throughput_received rvr_bt) \<and>
           length (upper_limit l) = length (throughput_received rvr_bt) \<and>
           (throughput_received rvr_bt \<noteq> [] \<longrightarrow>
              length (throughput_received rvr_bt) \<le> length (attenuation rvr_bt)) \<and>
           (\<forall>i<length (throughput_received rvr_bt).
              \<exists>att. coex_limits tp rvr_bt performance_bt (total_attenuation tp performance_bt) i =
                 Inr (att, lower_limit l ! i, upper_limit l ! i))"
proof -
  from assms obtain rvr_bt performance_bt where
    s: "rvr bt = Some rvr_bt" "performance_results bt = Some performance_bt" and
    l: "limits_loop tp rvr_bt performance_bt (total_attenuation tp performance_bt) 0
          (throughput_received rvr_bt)
          \<lparr>x_attenuation = [], lower_limit = [], upper_limit = []\<rparr> = Inr l"
    by (auto simp: group_limits_def split: option.splits)
  from limits_loop_Inr[OF l] show ?thesis using s by auto
qed

lemma limits_groups_Inr:
  assumes "limits_groups tp rvr performance_results bts acc = Inr lims"
  shows "(bt \<in> set bts \<longrightarrow>
            (\<exists>l. group_limits tp rvr performance_results bt = Inr l \<and> lims bt = Some l)) \<and>
         (bt \<notin> set bts \<longrightarrow> lims bt = acc bt)"
  using assms
proof (induction bts arbitrary: acc)
  case Nil
  then show ?case by simp
next
  case (Cons b bts)
  from Cons.prems obtain l0 where
    g: "group_limits tp rvr performance_results b = Inr l0" and
    r: "limits_groups tp rvr performance_results bts (acc(b \<mapsto> l0)) = Inr lims"
    by (auto split: sum.splits)
  from Cons.IH[OF r] g show ?case by (cases "bt \<in> set bts") auto
qed

lemma count_loop_counts:
  assumes "idx + length ys \<le> length (attenuation rvr_bt)"
    "idx + length ys \<le> length (lower_limit l)" "idx + length ys \<le> length (upper_limit l)"
  shows "count_loop rvr_bt (Some l) idx ys fc =
           Inr (fc + int (points_outside ys (drop idx (lower_limit l)) (drop idx (upper_limit l))))"
  using assms
proof (induction ys arbitrary: idx fc)
  case Nil
  then show ?case by (simp add: points_outside_def)
next
  case (Cons y ys)
  have i: "idx < length (attenuation rvr_bt)" "idx < length (lower_limit l)"
    "idx < length (upper_limit l)"
    using Cons.prems by simp_all
  have d: "drop idx (lower_limit l) = lower_limit l ! idx # drop (Suc idx) (lower_limit l)"
    "drop idx (upper_limit l) = upper_limit l ! idx # drop (Suc idx) (upper_limit l)"
    using i by (simp_all add: Cons_nth_drop_Suc)
  have IH: "count_loop rvr_bt (Some l) (Suc idx) ys c =
           Inr (c + int (points_outside ys (drop (Suc idx) (lower_limit l))
                           (drop (Suc idx) (upper_limit l))))" for c
    using Cons.prems by (intro Cons.IH) simp_all
  show ?case
    using i by (simp add: IH d points_outside_def outside_limits_def)
qed

lemma failing_points_nonneg: "0 \<le> failing_points rvr lims bts"
  unfolding failing_points_def
  by (intro sum_list_nonneg) (auto split: option.splits)

lemma check_groups_result:
  assumes "\<forall>bt\<in>set bts. group_ok rvr lims bt"
  shows "check_groups tp rvr lims bts fc =
           Inr (if bts \<noteq> [] \<and> failure_count_tolerance tp \<le> fc + failing_points rvr lims bts
                then Some False else None)"
  using assms
proof (induction bts arbitrary: fc)
  case Nil
  then show ?case by simp
next
  case (Cons b bts)
  from Cons.prems obtain rvr_bt l where
    s: "rvr b = Some rvr_bt" "lims b = Some l" and
    len: "length (lower_limit l) = length (throughput_received rvr_bt)"
      "length (upper_limit l) = length (throughput_received rvr_bt)"
      "throughput_received rvr_bt \<noteq> [] \<longrightarrow>
         length (throughput_received rvr_bt) \<le> length (attenuation rvr_bt)"
    by (auto simp: group_ok_def split: option.splits)
  let ?n = "int (points_outside (throughput_received rvr_bt) (lower_limit l) (upper_limit l))"
  have c: "count_loop rvr_bt (Some l) 0 (throughput_received rvr_bt) fc = Inr (fc + ?n)"
  proof (cases "throughput_received rvr_bt = []")
    case True
    then show ?thesis by (simp add: points_outside_def)
  next
    case False
    then show ?thesis using count_loop_counts[of 0 "throughput_received rvr_bt" rvr_bt l fc] len
      by simp
  qed
  have f: "failing_points rvr lims (b # bts) = ?n + failing_points rvr lims bts"
    by (simp add: failing_points_def s)
  have IH: "check_groups tp rvr lims bts (fc + ?n) =
           Inr (if bts \<noteq> [] \<and> failure_count_tolerance tp \<le> fc + ?n + failing_points rvr lims bts
                then Some False else None)"
    using Cons.prems by (intro Cons.IH) simp
  show ?case
  proof (cases "failure_count_tolerance tp \<le> fc + ?n")
    case True
    then show ?thesis using failing_points_nonneg[of rvr lims bts] by (simp add: s c f)
  next
    case False
    then show ?thesis 
      by (cases "bts = []") (simp_all add: s c f IH failing_points_def)
  qed
qed

lemma limits_give_group_ok:
  assumes "get_throughput_limits tp bts rvr performance_file = Inr lims" "bt \<in> set bts"
  shows "group_ok rvr lims bt"
proof -
  from assms(1) obtain performance_results where
    "limits_groups tp rvr performance_results bts Map.empty = Inr lims"
    by (auto simp: get_throughput_limits_def split: json_file.splits)
  from limits_groups_Inr[OF this, of bt] assms(2) obtain l where
    "group_limits tp rvr performance_results bt = Inr l" "lims bt = Some l"
    by blast
  from group_limits_Inr[OF this(1)] this(2) show ?thesis
    by (auto simp: group_ok_def)
qed

lemma coex_verdict:
  assumes "get_throughput_limits tp bts rvr performance_file = Inr lims"
  shows "throughput_pass_fail_check tp bts rvr performance_file =
           (if bts \<noteq> [] \<and> failure_count_tolerance tp \<le> failing_points rvr lims bts
            then Some False else None)"
  using check_groups_result[of bts rvr lims tp 0] limits_give_group_ok[OF assms]
  by (simp add: throughput_pass_fail_check_def assms)

lemma rvr_limits_defined:
  assumes "idx < length (attenuation rvr)" "2 \<le> length gldn_attenuation"
    "length gldn_attenuation \<le> length (throughput_receive gldn_results)"
  shows "\<exists>rng. rvr_limits tp gldn_results rvr gldn_attenuation idx =
           Inr (attenuation rvr ! idx + fixed_attenuation rvr, rng)"
proof -
  let ?ds = "att_distances (attenuation rvr ! idx + fixed_attenuation rvr) gldn_attenuation"
  let ?sel = "closest_indeces 2 ?ds"
  have len: "length ?ds = length gldn_attenuation" by (simp add: att_distances_def)
  have "\<forall>i\<in>set ?sel. i < length (throughput_receive gldn_results)"
    using closest_indeces_in_range[of _ 2 ?ds] assms(3) len by fastforce
  then have "closest_throughputs (throughput_receive gldn_results) ?sel =
      Inr (sort (map ((!) (throughput_receive gldn_results)) ?sel))"
    by (simp add: closest_throughputs_def lookup_all_in_range)
  moreover have "length (sort (map ((!) (throughput_receive gldn_results)) ?sel)) = 2"
    using length_closest_indeces[of 2 ?ds] assms(2) len by simp
  ultimately show ?thesis
    using assms(1) by (simp add: rvr_limits_def allowed_throughput_range_def Let_def)
qed

lemma rvr_loop_pass:
  assumes "\<forall>i<length ys. \<exists>att rng. rvr_limits tp g rvr ga (idx + i) = Inr (att, rng) \<and>
              \<not> beyond_limits tp (ys ! i) rng"
  shows "rvr_loop tp g rvr ga idx ys = TestPass"
  using assms
proof (induction ys arbitrary: idx)
  case Nil
  then show ?case by simp
next
  case (Cons y ys)
  from Cons.prems[rule_format, of 0] obtain att rng where
    h: "rvr_limits tp g rvr ga idx = Inr (att, rng)" "\<not> beyond_limits tp y rng"
    by auto
  have "\<forall>i<length ys. \<exists>att rng. rvr_limits tp g rvr ga (Suc idx + i) = Inr (att, rng) \<and>
              \<not> beyond_limits tp (ys ! i) rng"
    using Cons.prems by (auto dest: spec[of _ "Suc _"])
  from Cons.IH[OF this] h show ?case by simp
qed

lemma rvr_loop_fail:
  assumes "i < length ys"
    "\<forall>j<i. \<exists>att rng. rvr_limits tp g rvr ga (idx + j) = Inr (att, rng) \<and>
              \<not> beyond_limits tp (ys ! j) rng"
    "rvr_limits tp g rvr ga (idx + i) = Inr (att, rng)" "beyond_limits tp (ys ! i) rng"
  shows "rvr_loop tp g rvr ga idx ys = TestFailure att (ys ! i) rng"
  using assms
proof (induction ys arbitrary: idx i)
  case Nil
  then show ?case by simp
next
  case (Cons y ys)
  show ?case
  proof (cases i)
    case 0
    then show ?thesis using Cons.prems by simp
  next
    case (Suc i')
    from Cons.prems(2)[rule_format, of 0] Suc obtain att0 rng0 where
      h: "rvr_limits tp g rvr ga idx = Inr (att0, rng0)" "\<not> beyond_limits tp y rng0"
      by auto
    have "\<forall>j<i'. \<exists>att rng. rvr_limits tp g rvr ga (Suc idx + j) = Inr (att, rng) \<and>
              \<not> beyond_limits tp (ys ! j) rng"
      using Cons.prems(2) Suc by (auto dest: spec[of _ "Suc _"])
    from Cons.IH[of i' "Suc idx", OF _ this] Cons.prems Suc h show ?thesis by simp
  qed
qed

lemma rvr_verdict:
  assumes "length (throughput_receive rvr) \<le> length (attenuation rvr)"
    "2 \<le> length (attenuation gldn_results)"
    "length (attenuation gldn_results) \<le> length (throughput_receive gldn_results)"
  shows "(if \<exists>idx<length (throughput_receive rvr). rvr_point_fails tp gldn_results rvr idx
          then \<exists>rng. pass_fail_check tp (Loaded gldn_results) rvr =
                 (let idx = (LEAST idx. idx < length (throughput_receive rvr) \<and>
                                  rvr_point_fails tp gldn_results rvr idx)
                  in TestFailure (attenuation rvr ! idx + fixed_attenuation rvr)
                       (throughput_receive rvr ! idx) rng)
          else pass_fail_check tp (Loaded gldn_results) rvr = TestPass)"
proof -
  let ?ga = "map (\<lambda>att. att + fixed_attenuation gldn_results) (attenuation gldn_results)"
  let ?n = "length (throughput_receive rvr)"
  let ?F = "\<lambda>idx. idx < ?n \<and> rvr_point_fails tp gldn_results rvr idx"
  have def: "\<exists>rng. rvr_limits tp gldn_results rvr ?ga idx =
           Inr (attenuation rvr ! idx + fixed_attenuation rvr, rng)" if "idx < ?n" for idx
    using that assms by (intro rvr_limits_defined) simp_all
  have ok: "\<exists>att rng. rvr_limits tp gldn_results rvr ?ga idx = Inr (att, rng) \<and>
              \<not> beyond_limits tp (throughput_receive rvr ! idx) rng"
    if "idx < ?n" "\<not> rvr_point_fails tp gldn_results rvr idx" for idx
    using def[OF that(1)] that(2) by (auto simp: rvr_point_fails_def)
  show ?thesis
  proof (cases "\<exists>idx. ?F idx")
    case True
    define m where "m = (LEAST idx. ?F idx)"
    have m: "?F m" unfolding m_def using True by (rule LeastI_ex)
    have least: "\<not> ?F j" if "j < m" for j
      using that not_less_Least unfolding m_def by blast
    from def[of m] m obtain rng where
      r: "rvr_limits tp gldn_results rvr ?ga m =
           Inr (attenuation rvr ! m + fixed_attenuation rvr, rng)" by blast
    have b: "beyond_limits tp (throughput_receive rvr ! m) rng"
      using m r by (simp add: rvr_point_fails_def)
    have "\<forall>j<m. \<exists>att rng. rvr_limits tp gldn_results rvr ?ga (0 + j) = Inr (att, rng) \<and>
              \<not> beyond_limits tp (throughput_receive rvr ! j) rng"
      using least ok m by force
    from rvr_loop_fail[of m "throughput_receive rvr" tp gldn_results rvr ?ga 0, OF _ this] m r b
    have "pass_fail_check tp (Loaded gldn_results) rvr =
        TestFailure (attenuation rvr ! m + fixed_attenuation rvr) (throughput_receive rvr ! m) rng"
      by (simp add: pass_fail_check_def)
    then show ?thesis using True by (auto simp: m_def Let_def)
  next
    case False
    then have "\<forall>i<?n. \<exists>att rng. rvr_limits tp gldn_results rvr ?ga (0 + i) = Inr (att, rng) \<and>
              \<not> beyond_limits tp (throughput_receive rvr ! i) rng"
      using ok by simp
    from rvr_loop_pass[OF this] False show ?thesis by (auto simp: pass_fail_check_def)
  qed
qed

text \<open>
  C4. With well-formed inputs (an attenuation for every measured point, at least two
  reference points, a reference throughput for every reference attenuation) the RvR
  check ends in the failure signal exactly when at least one point is beyond its limits,
  raised for the first such point, and in the pass signal otherwise. When the limits
  were computed and there is at least one Bluetooth attenuation, the coexistence check
  returns \<^verbatim>\<open>False\<close> exactly when the number of points outside their limits, summed
  over all Bluetooth attenuations, is greater than or equal to
  \<open>failure_count_tolerance\<close>, and \<^verbatim>\<open>None\<close> otherwise.
\<close>

theorem aggregation_policy:
  "(length (throughput_receive rvr) \<le> length (attenuation rvr) \<and>
    2 \<le> length (attenuation gldn_results) \<and>
    length (attenuation gldn_results) \<le> length (throughput_receive gldn_results) \<longrightarrow>
      ((\<exists>att thr rng. pass_fail_check tp (Loaded gldn_results) rvr = TestFailure att thr rng) \<longleftrightarrow>
         (\<exists>idx<length (throughput_receive rvr). rvr_point_fails tp gldn_results rvr idx)) \<and>
      (pass_fail_check tp (Loaded gldn_results) rvr = TestPass \<longleftrightarrow>
         \<not> (\<exists>idx<length (throughput_receive rvr). rvr_point_fails tp gldn_results rvr idx)) \<and>
      (\<forall>idx<length (throughput_receive rvr).
         rvr_point_fails tp gldn_results rvr idx \<and>
         (\<forall>j<idx. \<not> rvr_point_fails tp gldn_results rvr j) \<longrightarrow>
         (\<exists>rng. pass_fail_check tp (Loaded gldn_results) rvr =
            TestFailure (attenuation rvr ! idx + fixed_attenuation rvr)
              (throughput_receive rvr ! idx) rng))) \<and>
   (get_throughput_limits tp bt_atten_range rvrs performance_file = Inr throughput_limits \<and>
    bt_atten_range \<noteq> [] \<longrightarrow>
      (throughput_pass_fail_check tp bt_atten_range rvrs performance_file = Some False \<longleftrightarrow>
         failure_count_tolerance tp \<le> failing_points rvrs throughput_limits bt_atten_range) \<and>
      (throughput_pass_fail_check tp bt_atten_range rvrs performance_file = None \<longleftrightarrow>
         failing_points rvrs throughput_limits bt_atten_range < failure_count_tolerance tp))"
proof (intro conjI impI)
  let ?n = "length (throughput_receive rvr)"
  let ?F = "\<lambda>idx. idx < ?n \<and> rvr_point_fails tp gldn_results rvr idx"
  assume wf: "length (throughput_receive rvr) \<le> length (attenuation rvr) \<and>
    2 \<le> length (attenuation gldn_results) \<and>
    length (attenuation gldn_results) \<le> length (throughput_receive gldn_results)"
  then have v: "(if \<exists>idx<?n. rvr_point_fails tp gldn_results rvr idx
          then \<exists>rng. pass_fail_check tp (Loaded gldn_results) rvr =
                 (let idx = (LEAST idx. ?F idx)
                  in TestFailure (attenuation rvr ! idx + fixed_attenuation rvr)
                       (throughput_receive rvr ! idx) rng)
          else pass_fail_check tp (Loaded gldn_results) rvr = TestPass)"
    by (intro rvr_verdict) simp_all
  show "(\<exists>att thr rng. pass_fail_check tp (Loaded gldn_results) rvr = TestFailure att thr rng) \<longleftrightarrow>
         (\<exists>idx<?n. rvr_point_fails tp gldn_results rvr idx)"
    using v by (auto simp: Let_def split: if_splits)
  show "pass_fail_check tp (Loaded gldn_results) rvr = TestPass \<longleftrightarrow>
         \<not> (\<exists>idx<?n. rvr_point_fails tp gldn_results rvr idx)"
    using v by (auto simp: Let_def split: if_splits)
  show "\<forall>idx<?n. rvr_point_fails tp gldn_results rvr idx \<and>
         (\<forall>j<idx. \<not> rvr_point_fails tp gldn_results rvr j) \<longrightarrow>
         (\<exists>rng. pass_fail_check tp (Loaded gldn_results) rvr =
            TestFailure (attenuation rvr ! idx + fixed_attenuation rvr)
              (throughput_receive rvr ! idx) rng)"
  proof (intro allI impI)
    fix idx
    assume a: "idx < ?n" and
      b: "rvr_point_fails tp gldn_results rvr idx \<and>
          (\<forall>j<idx. \<not> rvr_point_fails tp gldn_results rvr j)"
    have "(LEAST i. ?F i) = idx"
      using a b by (intro Least_equality) (auto simp: not_less[symmetric])
    with v a b show "\<exists>rng. pass_fail_check tp (Loaded gldn_results) rvr =
            TestFailure (attenuation rvr ! idx + fixed_attenuation rvr)
              (throughput_receive rvr ! idx) rng"
      by (auto simp: Let_def split: if_splits)
  qed
next
  assume "get_throughput_limits tp bt_atten_range rvrs performance_file = Inr throughput_limits \<and>
    bt_atten_range \<noteq> []"
  then show "throughput_pass_fail_check tp bt_atten_range rvrs performance_file = Some False \<longleftrightarrow>
         failure_count_tolerance tp \<le> failing_points rvrs throughput_limits bt_atten_range"
    using coex_verdict[of tp bt_atten_range rvrs performance_file throughput_limits] by simp
next
  assume "get_throughput_limits tp bt_atten_range rvrs performance_file = Inr throughput_limits \<and>
    bt_atten_range \<noteq> []"
  then show "throughput_pass_fail_check tp bt_atten_range rvrs performance_file = None \<longleftrightarrow>
         failing_points rvrs throughput_limits bt_atten_range < failure_count_tolerance tp"
    using coex_verdict[of tp bt_atten_range rvrs performance_file throughput_limits] by simp
qed

theorem aggregation_policy_witness:
  "rvr_point_fails \<lparr>abs_tolerance = 5, pct_tolerance = 10, failure_count_tolerance = 2,
        has_fixed_attenuation = True\<rparr>
      \<lparr>fixed_attenuation = 0, attenuation = [0, 10, 20], throughput_receive = [100, 80, 50]\<rparr>
      \<lparr>fixed_attenuation = 0, attenuation = [0, 10, 20], throughput_receive = [100, 60, 20]\<rparr> 1 \<and>
   pass_fail_check \<lparr>abs_tolerance = 5, pct_tolerance = 10, failure_count_tolerance = 2,
        has_fixed_attenuation = True\<rparr>
      (Loaded \<lparr>fixed_attenuation = 0, attenuation = [0, 10, 20],
         throughput_receive = [100, 80, 50]\<rparr>)
      \<lparr>fixed_attenuation = 0, attenuation = [0, 10, 20], throughput_receive = [100, 60, 20]\<rparr>
     \<noteq> TestPass \<and>
   get_throughput_limits \<lparr>abs_tolerance = 5, pct_tolerance = 10, failure_count_tolerance = 2,
        has_fixed_attenuation = True\<rparr> [0]
      [0 \<mapsto> \<lparr>fixed_attenuation = 0, attenuation = [0, 10, 20],
              throughput_received = [100, 40, 120]\<rparr>]
      (Loaded [0 \<mapsto> \<lparr>fixed_attenuation = 0, attenuation = [0, 10, 20],
              throughput_received = [100, 80, 50]\<rparr>])
     = Inr [0 \<mapsto> \<lparr>x_attenuation = [0, 10, 20], lower_limit = [45, 45, 45],
                  upper_limit = [110, 110, 110]\<rparr>] \<and>
   failing_points
      [0 \<mapsto> \<lparr>fixed_attenuation = 0, attenuation = [0, 10, 20],
              throughput_received = [100, 40, 120]\<rparr>]
      [0 \<mapsto> \<lparr>x_attenuation = [0, 10, 20], lower_limit = [45, 45, 45],
                  upper_limit = [110, 110, 110]\<rparr>] [0] = 2 \<and>
   throughput_pass_fail_check \<lparr>abs_tolerance = 5, pct_tolerance = 10,
        failure_count_tolerance = 2, has_fixed_attenuation = True\<rparr> [0]
      [0 \<mapsto> \<lparr>fixed_attenuation = 0, attenuation = [0, 10, 20],
              throughput_received = [100, 40, 120]\<rparr>]
      (Loaded [0 \<mapsto> \<lparr>fixed_attenuation = 0, attenuation = [0, 10, 20],
              throughput_received = [100, 80, 50]\<rparr>]) = Some False"
proof -
  let ?tp = "\<lparr>abs_tolerance = 5, pct_tolerance = 10, failure_count_tolerance = 2,
        has_fixed_attenuation = True\<rparr>"
  let ?g = "\<lparr>fixed_attenuation = 0, attenuation = [0, 10, 20],
        throughput_receive = [100, 80, 50]\<rparr>"
  let ?r = "\<lparr>fixed_attenuation = 0, attenuation = [0, 10, 20],
        throughput_receive = [100, 60, 20]\<rparr>"
  let ?c = "[0 \<mapsto> \<lparr>fixed_attenuation = 0, attenuation = [0, 10, 20],
              throughput_received = [100, 40, 120]\<rparr>]"
  let ?p = "[0 \<mapsto> \<lparr>fixed_attenuation = 0, attenuation = [0, 10, 20],
              throughput_received = [100, 80, 50]\<rparr>]"
  let ?l = "[0 \<mapsto> \<lparr>x_attenuation = [0, 10, 20], lower_limit = [45, 45, 45],
                  upper_limit = [110, 110, 110]\<rparr>]"
  have f: "rvr_point_fails ?tp ?g ?r 1"
    by (simp add: rvr_point_fails_def comparator_defs)
  have l: "get_throughput_limits ?tp [0] ?c (Loaded ?p) = Inr ?l"
    by (simp add: comparator_defs)
  have n: "failing_points ?c ?l [0] = 2"
    by (simp add: failing_points_def points_outside_def)
  from aggregation_policy[of ?r ?g ?tp "[0]" ?c "Loaded ?p" ?l] f l n
  have "pass_fail_check ?tp (Loaded ?g) ?r \<noteq> TestPass"
    and "throughput_pass_fail_check ?tp [0] ?c (Loaded ?p) = Some False"
    by auto
  with f l n show ?thesis by blast
qed

text \<open>
  C10. With \<open>failure_count_tolerance\<close> 0 the coexistence check returns \<^verbatim>\<open>False\<close>
  for every sweep for which it runs (the limits were computed and there is at least one
  Bluetooth attenuation), also when no point is outside its limits: the failure count
  starts at 0 and is compared with \<open>\<ge>\<close> after the first group.
\<close>

theorem zero_tolerance_always_fails:
  assumes "failure_count_tolerance tp = 0"
    and "get_throughput_limits tp bt_atten_range rvrs performance_file = Inr throughput_limits"
    and "bt_atten_range \<noteq> []"
  shows "throughput_pass_fail_check tp bt_atten_range rvrs performance_file = Some False"
  using coex_verdict[OF assms(2)] assms(1,3)
    failing_points_nonneg[of rvrs throughput_limits bt_atten_range]
  by simp

theorem zero_tolerance_always_fails_witness:
  "failure_count_tolerance \<lparr>abs_tolerance = 5, pct_tolerance = 10,
        failure_count_tolerance = 0, has_fixed_attenuation = True\<rparr> = 0 \<and>
   get_throughput_limits \<lparr>abs_tolerance = 5, pct_tolerance = 10, failure_count_tolerance = 0,
        has_fixed_attenuation = True\<rparr> [0]
      [0 \<mapsto> \<lparr>fixed_attenuation = 0, attenuation = [0, 10, 20],
              throughput_received = [100, 80, 50]\<rparr>]
      (Loaded [0 \<mapsto> \<lparr>fixed_attenuation = 0, attenuation = [0, 10, 20],
              throughput_received = [100, 80, 50]\<rparr>])
     = Inr [0 \<mapsto> \<lparr>x_attenuation = [0, 10, 20], lower_limit = [45, 45, 45],
                  upper_limit = [110, 110, 110]\<rparr>] \<and>
   [0 :: int] \<noteq> [] \<and>
   failing_points
      [0 \<mapsto> \<lparr>fixed_attenuation = 0, attenuation = [0, 10, 20],
              throughput_received = [100, 80, 50]\<rparr>]
      [0 \<mapsto> \<lparr>x_attenuation = [0, 10, 20], lower_limit = [45, 45, 45],
                  upper_limit = [110, 110, 110]\<rparr>] [0] = 0 \<and>
   throughput_pass_fail_check \<lparr>abs_tolerance = 5, pct_tolerance = 10,
        failure_count_tolerance = 0, has_fixed_attenuation = True\<rparr> [0]
      [0 \<mapsto> \<lparr>fixed_attenuation = 0, attenuation = [0, 10, 20],
              throughput_received = [100, 80, 50]\<rparr>]
      (Loaded [0 \<mapsto> \<lparr>fixed_attenuation = 0, attenuation = [0, 10, 20],
              throughput_received = [100, 80, 50]\<rparr>]) = Some False"
proof -
  let ?tp = "\<lparr>abs_tolerance = 5, pct_tolerance = 10, failure_count_tolerance = 0,
        has_fixed_attenuation = True\<rparr>"
  let ?c = "[0 \<mapsto> \<lparr>fixed_attenuation = 0, attenuation = [0, 10, 20],
              throughput_received = [100, 80, 50]\<rparr>]"
  let ?l = "[0 \<mapsto> \<lparr>x_attenuation = [0, 10, 20], lower_limit = [45, 45, 45],
                  upper_limit = [110, 110, 110]\<rparr>]"
  have t: "failure_count_tolerance ?tp = 0" by simp
  have l: "get_throughput_limits ?tp [0] ?c (Loaded ?c) = Inr ?l"
    by (simp add: comparator_defs)
  have ne: "[0 :: int] \<noteq> []" by simp
  have n: "failing_points ?c ?l [0] = 0"
    by (simp add: failing_points_def points_outside_def)
  from zero_tolerance_always_fails[OF t l ne] t l ne n show ?thesis by blast
qed

subsection \<open>A reference that cannot be read\<close>




subsection \<open>Comparing a reference with itself\<close>

lemma self_selected:
  assumes "distinct atts" "idx < length atts" "0 < k"
  shows "idx \<in> set (closest_indeces k (att_distances (atts ! idx + f) (map (\<lambda>att. att + f) atts)))"
proof (rule ccontr)
  let ?ds = "att_distances (atts ! idx + f) (map (\<lambda>att. att + f) atts)"
  let ?sel = "closest_indeces k ?ds"
  assume out: "idx \<notin> set ?sel"
  have len: "length ?ds = length atts" by (simp add: att_distances_def)
  have "length ?sel = min k (length atts)" by (simp add: length_closest_indeces len)
  then have "?sel \<noteq> []" using assms(2,3) by auto
  then obtain i where i: "i \<in> set ?sel" by (cases ?sel) auto
  then have il: "i < length atts" using closest_indeces_in_range[of i k ?ds] len by simp
  have "nearer ?ds i idx"
    using i out assms(2) len by (intro closest_indeces_nearer_than_rest) simp_all
  moreover have "?ds ! idx = 0" using assms(2) by (simp add: att_distances_def)
  moreover have "?ds ! i = \<bar>atts ! idx - atts ! i\<bar>" using il by (simp add: att_distances_def)
  ultimately have "atts ! i = atts ! idx" "i < idx" by (auto simp: nearer_def)
  then show False using assms(1,2) il by (simp add: nth_eq_iff_index_eq)
qed

lemma band_admits:
  assumes "x \<in> set vs" "0 \<le> x" "0 \<le> abs_tolerance tp"
  shows "fst (spec_band tp vs) \<le> x \<and> x \<le> snd (spec_band tp vs)"
proof -
  have "Min (set vs) \<le> x" "x \<le> Max (set vs)" using assms(1) by simp_all
  then show ?thesis using assms(2,3) by (auto simp: spec_band_def max_def)
qed

lemma self_value_selected:
  assumes "distinct atts" "idx < length atts" "0 < k" "length atts = length vals"
  shows "vals ! idx \<in> set (selected_values k vals (atts ! idx + f) (map (\<lambda>att. att + f) atts))"
  using self_selected[OF assms(1-3), of f] by (auto simp: selected_values_def)

lemma rvr_self_point:
  assumes "0 \<le> abs_tolerance tp" "distinct (attenuation g)"
    "length (attenuation g) = length (throughput_receive g)"
    "\<forall>x\<in>set (throughput_receive g). 0 \<le> x" "idx < length (throughput_receive g)"
  shows "\<not> rvr_point_fails tp g g idx"
proof (cases "rvr_limits tp g g (map (\<lambda>att. att + fixed_attenuation g) (attenuation g)) idx")
  case (Inl e)
  then show ?thesis by (simp add: rvr_point_fails_def)
next
  case (Inr p)
  obtain att rng where p: "p = (att, rng)" by (cases p)
  let ?vs = "selected_values 2 (throughput_receive g)
               (attenuation g ! idx + fixed_attenuation g)
               (map (\<lambda>att. att + fixed_attenuation g) (attenuation g))"
  from rvr_band[OF Inr[unfolded p]] have
    rng: "rng = [fst (spec_band tp ?vs), snd (spec_band tp ?vs)]" by simp
  have "throughput_receive g ! idx \<in> set ?vs"
    using assms by (intro self_value_selected) simp_all
  moreover have "0 \<le> throughput_receive g ! idx" using assms(4,5) by simp
  ultimately have "fst (spec_band tp ?vs) \<le> throughput_receive g ! idx \<and>
      throughput_receive g ! idx \<le> snd (spec_band tp ?vs)"
    using assms(1) by (intro band_admits)
  then show ?thesis using Inr p rng assms(1)
    by (simp add: rvr_point_fails_def beyond_limits_def throughput_distance_def)
qed

lemma rvr_self_passes:
  assumes "0 \<le> abs_tolerance tp" "distinct (attenuation g)"
    "length (attenuation g) = length (throughput_receive g)"
    "\<forall>x\<in>set (throughput_receive g). 0 \<le> x" "length (attenuation g) \<noteq> 1"
  shows "pass_fail_check tp (Loaded g) g = TestPass"
proof (cases "throughput_receive g = []")
  case True
  then show ?thesis by (simp add: pass_fail_check_def)
next
  case False
  then have "length (attenuation g) \<noteq> 0" using assms(3) by simp
  with assms(5) have "2 \<le> length (attenuation g)" by linarith
  from rvr_verdict[of g g tp] this assms(3)
    rvr_self_point[OF assms(1-4)]
  show ?thesis by (auto split: if_splits)
qed

lemma coex_limits_defined:
  assumes "idx < length (attenuation rvr_bt)" "perf_att \<noteq> []"
    "length perf_att \<le> length (throughput_received performance_bt)"
  shows "\<exists>lo hi. coex_limits tp rvr_bt performance_bt (Some perf_att) idx =
           Inr (attenuation rvr_bt ! idx + fixed_attenuation rvr_bt, lo, hi)"
proof -
  let ?ds = "att_distances (attenuation rvr_bt ! idx + fixed_attenuation rvr_bt) perf_att"
  let ?sel = "closest_indeces 3 ?ds"
  have len: "length ?ds = length perf_att" by (simp add: att_distances_def)
  have in_rng: "\<forall>i\<in>set ?sel. i < length (throughput_received performance_bt)"
    using closest_indeces_in_range[of _ 3 ?ds] assms(3) len by fastforce
  define cts where "cts = sort (map ((!) (throughput_received performance_bt)) ?sel)"
  have "closest_throughputs (throughput_received performance_bt) ?sel = Inr cts"
    using in_rng by (simp add: closest_throughputs_def lookup_all_in_range cts_def)
  moreover have "length cts = min 3 (length perf_att)"
    using length_closest_indeces[of 3 ?ds] len by (simp add: cts_def)
  then have "cts \<noteq> []" using assms(2) by (cases perf_att) auto
  ultimately show ?thesis
    using assms(1) by (simp add: coex_limits_def Let_def)
qed

lemma limits_loop_succeeds:
  assumes "\<forall>i<length ys. \<exists>att lo hi.
      coex_limits tp rvr_bt performance_bt pa (idx + i) = Inr (att, lo, hi)"
  shows "\<exists>l. limits_loop tp rvr_bt performance_bt pa idx ys acc = Inr l"
  using assms
proof (induction ys arbitrary: idx acc)
  case Nil
  then show ?case by simp
next
  case (Cons y ys)
  from Cons.prems[rule_format, of 0] obtain att lo hi where
    c: "coex_limits tp rvr_bt performance_bt pa idx = Inr (att, lo, hi)" by auto
  have "\<forall>i<length ys. \<exists>att lo hi.
      coex_limits tp rvr_bt performance_bt pa (Suc idx + i) = Inr (att, lo, hi)"
    using Cons.prems by (auto dest: spec[of _ "Suc _"])
  from Cons.IH[OF this] c show ?case by simp
qed

lemma limits_groups_succeeds:
  assumes "\<forall>bt\<in>set bts. \<exists>l. group_limits tp rvr performance_results bt = Inr l"
  shows "\<exists>lims. limits_groups tp rvr performance_results bts acc = Inr lims"
  using assms
proof (induction bts arbitrary: acc)
  case Nil
  then show ?case by simp
next
  case (Cons b bts)
  then obtain l where "group_limits tp rvr performance_results b = Inr l" by auto
  with Cons show ?case by simp
qed

lemma points_outside_zero:
  assumes "length los = length ys" "length his = length ys"
    "\<forall>i<length ys. los ! i \<le> ys ! i \<and> ys ! i \<le> his ! i"
  shows "points_outside ys los his = 0"
proof -
  have "\<not> (x < lo \<or> hi < x)" if "(x, lo, hi) \<in> set (zip ys (zip los his))" for x lo hi
  proof -
    from that obtain i where "i < length ys" "ys ! i = x" "los ! i = lo" "his ! i = hi"
      using assms(1,2) by (auto simp: in_set_zip)
    with assms(3) show ?thesis by auto
  qed
  then show ?thesis by (auto simp: points_outside_def filter_empty_conv)
qed

lemma coex_self_group:
  assumes "0 \<le> abs_tolerance tp" "has_fixed_attenuation tp" "perf bt = Some r"
    "distinct (attenuation r)" "length (attenuation r) = length (throughput_received r)"
    "\<forall>x\<in>set (throughput_received r). 0 \<le> x"
  shows "\<exists>l. group_limits tp perf perf bt = Inr l \<and>
           points_outside (throughput_received r) (lower_limit l) (upper_limit l) = 0"
proof -
  let ?pa = "map (\<lambda>att. att + fixed_attenuation r) (attenuation r)"
  have ta: "total_attenuation tp r = Some ?pa" using assms(2) by (simp add: total_attenuation_def)
  have def: "\<exists>att lo hi. coex_limits tp r r (Some ?pa) (0 + i) = Inr (att, lo, hi)"
    if "i < length (throughput_received r)" for i
  proof -
    have "?pa \<noteq> []" using that assms(5) by auto
    from coex_limits_defined[of i r ?pa r tp, OF _ this] that assms(5) show ?thesis by auto
  qed
  then obtain l where
    l: "limits_loop tp r r (Some ?pa) 0 (throughput_received r)
          \<lparr>x_attenuation = [], lower_limit = [], upper_limit = []\<rparr> = Inr l"
    using limits_loop_succeeds[of "throughput_received r" tp r r "Some ?pa" 0] by blast
  then have g: "group_limits tp perf perf bt = Inr l"
    by (simp add: group_limits_def assms(3) ta)
  from limits_loop_Inr[OF l] have
    len: "length (lower_limit l) = length (throughput_received r)"
      "length (upper_limit l) = length (throughput_received r)" and
    pts: "\<forall>i<length (throughput_received r). \<exists>att.
            coex_limits tp r r (Some ?pa) i = Inr (att, lower_limit l ! i, upper_limit l ! i)"
    by auto
  have "lower_limit l ! i \<le> throughput_received r ! i \<and>
        throughput_received r ! i \<le> upper_limit l ! i"
    if i: "i < length (throughput_received r)" for i
  proof -
    from pts i obtain att where
      c: "coex_limits tp r r (Some ?pa) i = Inr (att, lower_limit l ! i, upper_limit l ! i)"
      by blast
    let ?vs = "selected_values 3 (throughput_received r)
                 (attenuation r ! i + fixed_attenuation r) ?pa"
    from coex_band[OF c] have
      b: "(lower_limit l ! i, upper_limit l ! i) = spec_band tp ?vs" by simp
    have "throughput_received r ! i \<in> set ?vs"
      using assms i by (intro self_value_selected) simp_all
    moreover have "0 \<le> throughput_received r ! i" using assms(6) i by simp
    ultimately have "fst (spec_band tp ?vs) \<le> throughput_received r ! i \<and>
        throughput_received r ! i \<le> snd (spec_band tp ?vs)"
      using assms(1) by (intro band_admits)
    then show ?thesis using b by (metis fst_conv snd_conv)
  qed
  with len have "points_outside (throughput_received r) (lower_limit l) (upper_limit l) = 0"
    by (intro points_outside_zero) simp_all
  with g show ?thesis by blast
qed

lemma sum_list_all_zero:
  fixes f :: "'a \<Rightarrow> int"
  shows "\<forall>x\<in>set xs. f x = 0 \<Longrightarrow> sum_list (map f xs) = 0"
  by (induction xs) auto

lemma coex_self_passes:
  assumes "0 \<le> abs_tolerance tp" "has_fixed_attenuation tp"
    "\<forall>bt\<in>set bts. \<exists>r. perf bt = Some r \<and> distinct (attenuation r) \<and>
        length (attenuation r) = length (throughput_received r) \<and>
        (\<forall>x\<in>set (throughput_received r). 0 \<le> x)"
  shows "\<exists>lims. get_throughput_limits tp bts perf (Loaded perf) = Inr lims \<and>
           failing_points perf lims bts = 0"
proof -
  have grp: "\<exists>r l. perf bt = Some r \<and> group_limits tp perf perf bt = Inr l \<and>
           points_outside (throughput_received r) (lower_limit l) (upper_limit l) = 0"
    if "bt \<in> set bts" for bt
  proof -
    from assms(3) that obtain r where r: "perf bt = Some r" "distinct (attenuation r)"
      "length (attenuation r) = length (throughput_received r)"
      "\<forall>x\<in>set (throughput_received r). 0 \<le> x" by blast
    from coex_self_group[of tp perf bt r, OF assms(1,2) r] r(1) show ?thesis by blast
  qed
  then have "\<forall>bt\<in>set bts. \<exists>l. group_limits tp perf perf bt = Inr l" by blast
  from limits_groups_succeeds[OF this, of Map.empty] obtain lims where
    lims: "limits_groups tp perf perf bts Map.empty = Inr lims" by blast
  have "(case (perf bt, lims bt) of
          (Some rvr_bt, Some l) \<Rightarrow>
            int (points_outside (throughput_received rvr_bt) (lower_limit l) (upper_limit l))
        | _ \<Rightarrow> 0) = 0" if "bt \<in> set bts" for bt
  proof -
    from grp[OF that] obtain r l where
      h: "perf bt = Some r" "group_limits tp perf perf bt = Inr l"
        "points_outside (throughput_received r) (lower_limit l) (upper_limit l) = 0" by blast
    from limits_groups_Inr[OF lims, of bt] that h(2) have "lims bt = Some l" by auto
    with h show ?thesis by simp
  qed
  then have "failing_points perf lims bts = 0"
    unfolding failing_points_def by (intro sum_list_all_zero) blast
  with lims show ?thesis by (auto simp: get_throughput_limits_def)
qed

text \<open>
  Comparing a reference with itself does not always pass. A reference with a single
  point makes the RvR check read a second closest throughput that does not exist; with
  repeated attenuation values the stable order selects the earlier points with the same
  attenuation and the point itself is left out of its own band; and a negative value lies
  below the lower limit, which is floored at 0. The tolerances are 5 absolute and 10
  per cent.
\<close>

theorem self_comparison_counterexample:
  "pass_fail_check \<lparr>abs_tolerance = 5, pct_tolerance = 10, failure_count_tolerance = 1,
        has_fixed_attenuation = True\<rparr>
      (Loaded \<lparr>fixed_attenuation = 0, attenuation = [0], throughput_receive = [100]\<rparr>)
      \<lparr>fixed_attenuation = 0, attenuation = [0], throughput_receive = [100]\<rparr>
     = Raised IndexError \<and>
   pass_fail_check \<lparr>abs_tolerance = 5, pct_tolerance = 10, failure_count_tolerance = 1,
        has_fixed_attenuation = True\<rparr>
      (Loaded \<lparr>fixed_attenuation = 0, attenuation = [0, 0, 0],
         throughput_receive = [100, 100, 50]\<rparr>)
      \<lparr>fixed_attenuation = 0, attenuation = [0, 0, 0], throughput_receive = [100, 100, 50]\<rparr>
     = TestFailure 0 50 [90, 110] \<and>
   throughput_pass_fail_check \<lparr>abs_tolerance = 5, pct_tolerance = 10,
        failure_count_tolerance = 1, has_fixed_attenuation = True\<rparr> [0]
      [0 \<mapsto> \<lparr>fixed_attenuation = 0, attenuation = [0, 0, 0, 0],
              throughput_received = [100, 100, 100, 50]\<rparr>]
      (Loaded [0 \<mapsto> \<lparr>fixed_attenuation = 0, attenuation = [0, 0, 0, 0],
              throughput_received = [100, 100, 100, 50]\<rparr>])
     = Some False \<and>
   pass_fail_check \<lparr>abs_tolerance = 5, pct_tolerance = 10, failure_count_tolerance = 1,
        has_fixed_attenuation = True\<rparr>
      (Loaded \<lparr>fixed_attenuation = 0, attenuation = [0, 10],
         throughput_receive = [- 20, - 10]\<rparr>)
      \<lparr>fixed_attenuation = 0, attenuation = [0, 10], throughput_receive = [- 20, - 10]\<rparr>
     = TestFailure 0 (- 20) [0, - 5]"
  by (simp add: comparator_defs)

text \<open>
  C5 (as the code has it). Let the absolute tolerance be non-negative, the attenuation
  values of the reference pairwise distinct, one non-negative measured value for every
  attenuation. Then the RvR check of the reference against itself ends in the pass
  signal, unless the reference has exactly one point. The coexistence limits of the
  reference against itself are computed and no point lies outside them, and when
  \<open>failure_count_tolerance\<close> is positive the coexistence check returns \<^verbatim>\<open>None\<close>, not
  \<^verbatim>\<open>False\<close>.
\<close>

theorem self_comparison_passes:
  "(0 \<le> abs_tolerance tp \<and> distinct (attenuation g) \<and>
    length (attenuation g) = length (throughput_receive g) \<and>
    (\<forall>x\<in>set (throughput_receive g). 0 \<le> x) \<and> length (attenuation g) \<noteq> 1 \<longrightarrow>
      pass_fail_check tp (Loaded g) g = TestPass) \<and>
   (0 \<le> abs_tolerance tp \<and> has_fixed_attenuation tp \<and>
    (\<forall>bt\<in>set bt_atten_range. \<exists>r. perf bt = Some r \<and> distinct (attenuation r) \<and>
        length (attenuation r) = length (throughput_received r) \<and>
        (\<forall>x\<in>set (throughput_received r). 0 \<le> x)) \<longrightarrow>
      (\<exists>lims. get_throughput_limits tp bt_atten_range perf (Loaded perf) = Inr lims \<and>
         failing_points perf lims bt_atten_range = 0) \<and>
      (0 < failure_count_tolerance tp \<longrightarrow>
         throughput_pass_fail_check tp bt_atten_range perf (Loaded perf) = None))"
proof (intro conjI impI)
  assume "0 \<le> abs_tolerance tp \<and> distinct (attenuation g) \<and>
    length (attenuation g) = length (throughput_receive g) \<and>
    (\<forall>x\<in>set (throughput_receive g). 0 \<le> x) \<and> length (attenuation g) \<noteq> 1"
  then show "pass_fail_check tp (Loaded g) g = TestPass"
    by (intro rvr_self_passes) simp_all
next
  assume a: "0 \<le> abs_tolerance tp \<and> has_fixed_attenuation tp \<and>
    (\<forall>bt\<in>set bt_atten_range. \<exists>r. perf bt = Some r \<and> distinct (attenuation r) \<and>
        length (attenuation r) = length (throughput_received r) \<and>
        (\<forall>x\<in>set (throughput_received r). 0 \<le> x))"
  then show e: "\<exists>lims. get_throughput_limits tp bt_atten_range perf (Loaded perf) = Inr lims \<and>
         failing_points perf lims bt_atten_range = 0"
    by (intro coex_self_passes) simp_all
  assume t: "0 < failure_count_tolerance tp"
  from e obtain lims where
    l: "get_throughput_limits tp bt_atten_range perf (Loaded perf) = Inr lims"
      "failing_points perf lims bt_atten_range = 0" by blast
  from coex_verdict[OF l(1)] l(2) t
  show "throughput_pass_fail_check tp bt_atten_range perf (Loaded perf) = None" by simp
qed

theorem self_comparison_passes_witness:
  "(0 :: real) \<le> abs_tolerance \<lparr>abs_tolerance = 5, pct_tolerance = 10,
        failure_count_tolerance = 1, has_fixed_attenuation = True\<rparr> \<and>
   distinct [0, 10, 20 :: real] \<and>
   pass_fail_check \<lparr>abs_tolerance = 5, pct_tolerance = 10, failure_count_tolerance = 1,
        has_fixed_attenuation = True\<rparr>
      (Loaded \<lparr>fixed_attenuation = 0, attenuation = [0, 10, 20],
         throughput_receive = [100, 80, 50]\<rparr>)
      \<lparr>fixed_attenuation = 0, attenuation = [0, 10, 20], throughput_receive = [100, 80, 50]\<rparr>
     = TestPass \<and>
   throughput_pass_fail_check \<lparr>abs_tolerance = 5, pct_tolerance = 10,
        failure_count_tolerance = 1, has_fixed_attenuation = True\<rparr> [0]
      [0 \<mapsto> \<lparr>fixed_attenuation = 0, attenuation = [0, 10, 20],
              throughput_received = [100, 80, 50]\<rparr>]
      (Loaded [0 \<mapsto> \<lparr>fixed_attenuation = 0, attenuation = [0, 10, 20],
              throughput_received = [100, 80, 50]\<rparr>])
     = None"
proof -
  let ?tp = "\<lparr>abs_tolerance = 5, pct_tolerance = 10, failure_count_tolerance = 1,
        has_fixed_attenuation = True\<rparr>"
  let ?g = "\<lparr>fixed_attenuation = 0, attenuation = [0, 10, 20],
        throughput_receive = [100, 80, 50]\<rparr>"
  let ?c = "\<lparr>fixed_attenuation = 0, attenuation = [0, 10, 20],
        throughput_received = [100, 80, 50]\<rparr>"
  have h1: "0 \<le> abs_tolerance ?tp \<and> distinct (attenuation ?g) \<and>
    length (attenuation ?g) = length (throughput_receive ?g) \<and>
    (\<forall>x\<in>set (throughput_receive ?g). 0 \<le> x) \<and> length (attenuation ?g) \<noteq> 1"
    by simp
  have h2: "0 \<le> abs_tolerance ?tp \<and> has_fixed_attenuation ?tp \<and>
    (\<forall>bt\<in>set [0]. \<exists>r. [0 \<mapsto> ?c] bt = Some r \<and> distinct (attenuation r) \<and>
        length (attenuation r) = length (throughput_received r) \<and>
        (\<forall>x\<in>set (throughput_received r). 0 \<le> x))"
    by simp
  have h3: "0 < failure_count_tolerance ?tp" by simp
  from self_comparison_passes[of ?tp ?g "[0]" "[0 \<mapsto> ?c]"] h1 h2 h3
  have "pass_fail_check ?tp (Loaded ?g) ?g = TestPass"
    and "throughput_pass_fail_check ?tp [0] [0 \<mapsto> ?c] (Loaded [0 \<mapsto> ?c]) = None"
    by blast+
  then show ?thesis by simp
qed

section \<open>Properties of the instrument link\<close>

lemma utf8_decode_ascii: "\<forall>b\<in>set bs. b < 128 \<Longrightarrow> utf8_decode bs = Some bs"
  by (induction bs) auto

lemma utf8_encode_ascii: "\<forall>c\<in>set t. c < 128 \<Longrightarrow> utf8_encode t = Some t"
  by (induction t) (auto simp: utf8_encode_cp_def)

lemma send_ok:
  assumes "socket inst = Some s" "send_fault s = None"
    "encode (codefmt inst) (cmd @ escseq inst) = Some bs"
  shows "send inst cmd = (Inr (), inst\<lparr>socket := Some (s\<lparr>outbox := outbox s @ [bs]\<rparr>)\<rparr>)"
  using assms by (simp add: send_def sendall_def)

lemma recv_loop_outbox_snd:
  "recv_loop inst s resp = Some y \<Longrightarrow> outbox (snd y) = outbox s"
proof (erule recv_loop.raw_induct[where P = "\<lambda>inst s resp y. outbox (snd y) = outbox s", rotated])
  fix f inst s resp y
  assume IH: "\<And>s resp b y. f s resp b = Some y \<Longrightarrow> outbox (snd y) = outbox resp"
    and eq: "(case socket_recv s (socket_buffer_size inst) of
      (Inl Timeout, s') \<Rightarrow> Some (Inl (SocketInstrumentError Recv_timeout), s')
      | (Inl SocketError, s') \<Rightarrow> Some (Inl (SocketInstrumentError Recv_error), s')
      | (Inr chunk, s') \<Rightarrow>
          (case decode (codefmt inst) chunk of
             None \<Rightarrow> Some (Inl UnicodeDecodeError, s')
           | Some resp_tmp \<Rightarrow>
               if length resp_tmp < socket_buffer_size inst
               then Some (Inr (resp @ resp_tmp), s')
               else f inst s' (resp @ resp_tmp))) = Some y"
  have o: "outbox (snd (socket_recv s n)) = outbox s" for n
    by (auto split: list.splits event.splits)
  obtain r s' where rs: "socket_recv s (socket_buffer_size inst) = (r, s')"
    by (cases "socket_recv s (socket_buffer_size inst)")
  then have os: "outbox s' = outbox s" using o[of "socket_buffer_size inst"] by simp
  from eq show "outbox (snd y) = outbox s"
    unfolding rs using os IH
    by (auto split: sum.splits fault.splits option.splits if_splits)
qed

lemma recv_loop_outbox:
  "recv_loop inst s resp = Some (r, s') \<Longrightarrow> outbox s' = outbox s"
  using recv_loop_outbox_snd[of inst s resp "(r, s')"] by simp

lemma recv_outbox:
  assumes "recv inst = Some (r, inst')" "socket inst = Some s"
  shows "\<exists>s'. socket inst' = Some s' \<and> outbox s' = outbox s"
  using assms recv_loop_outbox[of inst s "[]"]
  by (auto simp: recv_def split: option.splits sum.splits prod.splits)

lemma recv_loop_terminates:
  assumes "0 < socket_buffer_size inst"
  shows "\<exists>r. recv_loop inst s resp = Some r"
proof (induction "pending s" arbitrary: s resp rule: less_induct)
  case less
  show ?case
  proof (cases "inbox s")
    case Nil
    then show ?thesis
      using assms by (subst recv_loop.simps) (cases "codefmt inst", simp)
  next
    case (Cons ev rest)
    show ?thesis
    proof (cases ev)
      case (Fault f)
      then show ?thesis using Cons
        by (subst recv_loop.simps) (cases f; simp)
    next
      case (Data bs)
      let ?n = "socket_buffer_size inst"
      let ?s' = "s\<lparr>inbox := (if length bs \<le> ?n then rest else Data (drop ?n bs) # rest)\<rparr>"
      have "pending ?s' < pending s"
        using Cons Data assms by (auto simp: pending_def)
      from less[OF this] have "\<exists>r. recv_loop inst ?s' resp' = Some r" for resp' .
      then show ?thesis using Cons Data
        by (subst recv_loop.simps) (auto split: option.splits)
    qed
  qed
qed

lemma recv_terminates:
  assumes "0 < socket_buffer_size inst"
  shows "\<exists>r inst'. recv inst = Some (r, inst')"
proof (cases "socket inst")
  case None
  then show ?thesis by (simp add: recv_def)
next
  case (Some s)
  from recv_loop_terminates[OF assms, of s "[]"] obtain r s' where
    "recv_loop inst s [] = Some (r, s')" by force
  then show ?thesis using Some by (cases r) (auto simp: recv_def)
qed

lemma recv_loop_closed:
  assumes "0 < socket_buffer_size inst" "inbox s = []"
  shows "recv_loop inst s resp = Some (Inr resp, s)"
  using assms by (subst recv_loop.simps) (cases "codefmt inst", simp)

lemma recv_loop_exact_multiple:
  assumes "0 < socket_buffer_size inst" "codefmt inst = UTF_8"
    "inbox s = [Data bs]" "length bs = Suc k * socket_buffer_size inst" "\<forall>b\<in>set bs. b < 128"
  shows "recv_loop inst s resp = Some (Inr (resp @ bs), s\<lparr>inbox := []\<rparr>)"
  using assms(3-5)
proof (induction k arbitrary: s bs resp)
  case 0
  let ?n = "socket_buffer_size inst"
  have d: "utf8_decode bs = Some bs" using 0 by (simp add: utf8_decode_ascii)
  have "recv_loop inst s resp = recv_loop inst (s\<lparr>inbox := []\<rparr>) (resp @ bs)"
    using 0 assms(1,2) d by (subst recv_loop.simps) simp
  also have "\<dots> = Some (Inr (resp @ bs), s\<lparr>inbox := []\<rparr>)"
    using assms(1) by (intro recv_loop_closed) simp_all
  finally show ?case .
next
  case (Suc k)
  let ?n = "socket_buffer_size inst"
  have len: "length bs = ?n + Suc k * ?n" using Suc.prems by simp
  have gt: "\<not> length bs \<le> ?n" using len assms(1) by simp
  have d: "utf8_decode (take ?n bs) = Some (take ?n bs)"
    using Suc.prems(3) by (intro utf8_decode_ascii) (auto dest: in_set_takeD)
  have lt: "length (take ?n bs) = ?n" using len by simp
  have "recv_loop inst s resp =
          recv_loop inst (s\<lparr>inbox := [Data (drop ?n bs)]\<rparr>) (resp @ take ?n bs)"
    using Suc.prems(1) assms(2) d gt lt by (subst recv_loop.simps) simp
  also have "\<dots> = Some (Inr ((resp @ take ?n bs) @ drop ?n bs), s\<lparr>inbox := [Data (drop ?n bs)]\<rparr>\<lparr>inbox := []\<rparr>)"
    using Suc.prems(3) len
    by (intro Suc.IH[of "s\<lparr>inbox := [Data (drop ?n bs)]\<rparr>" "drop ?n bs" "resp @ take ?n bs"])
      (auto dest: in_set_dropD)
  finally show ?case by simp
qed

lemma recv_loop_exact_multiple_timeout:
  assumes "0 < socket_buffer_size inst" "codefmt inst = UTF_8"
    "inbox s = [Data bs, Fault Timeout]" "length bs = Suc k * socket_buffer_size inst"
    "\<forall>b\<in>set bs. b < 128"
  shows "recv_loop inst s resp =
           Some (Inl (SocketInstrumentError Recv_timeout), s\<lparr>inbox := []\<rparr>)"
  using assms(3-5)
proof (induction k arbitrary: s bs resp)
  case 0
  let ?n = "socket_buffer_size inst"
  have d: "utf8_decode bs = Some bs" using 0 by (simp add: utf8_decode_ascii)
  have "recv_loop inst s resp = recv_loop inst (s\<lparr>inbox := [Fault Timeout]\<rparr>) (resp @ bs)"
    using 0 assms(1,2) d by (subst recv_loop.simps) simp
  also have "\<dots> = Some (Inl (SocketInstrumentError Recv_timeout), s\<lparr>inbox := []\<rparr>)"
    by (subst recv_loop.simps) simp
  finally show ?case .
next
  case (Suc k)
  let ?n = "socket_buffer_size inst"
  have len: "length bs = ?n + Suc k * ?n" using Suc.prems by simp
  have gt: "\<not> length bs \<le> ?n" using len assms(1) by simp
  have d: "utf8_decode (take ?n bs) = Some (take ?n bs)"
    using Suc.prems(3) by (intro utf8_decode_ascii) (auto dest: in_set_takeD)
  have lt: "length (take ?n bs) = ?n" using len by simp
  have "recv_loop inst s resp =
          recv_loop inst (s\<lparr>inbox := [Data (drop ?n bs), Fault Timeout]\<rparr>) (resp @ take ?n bs)"
    using Suc.prems(1) assms(2) d gt lt by (subst recv_loop.simps) simp
  also have "\<dots> = Some (Inl (SocketInstrumentError Recv_timeout),
       s\<lparr>inbox := [Data (drop ?n bs), Fault Timeout]\<rparr>\<lparr>inbox := []\<rparr>)"
    using Suc.prems(3) len
    by (intro Suc.IH[of "s\<lparr>inbox := [Data (drop ?n bs), Fault Timeout]\<rparr>" "drop ?n bs"
          "resp @ take ?n bs"])
      (auto dest: in_set_dropD)
  finally show ?case by simp
qed

lemma rstrip_newline_block: "c \<noteq> x \<Longrightarrow> rstrip [c] (replicate n x @ [c]) = replicate n x"
  by (simp add: rstrip_def)

lemma recv_connected:
  assumes "recv_loop inst s [] = Some (Inr resp, s')" "socket inst = Some s"
  shows "recv inst = Some (Inr (rstrip (escseq inst) resp), inst\<lparr>socket := Some s'\<rparr>)"
  using assms by (simp add: recv_def)

lemma recv_connected_error:
  assumes "recv_loop inst s [] = Some (Inl e, s')" "socket inst = Some s"
  shows "recv inst = Some (Inl e, inst\<lparr>socket := Some s'\<rparr>)"
  using assms by (simp add: recv_def)

text \<open>
  C8. \<^verbatim>\<open>_recv\<close> always returns or raises: with a positive buffer size the loop ends for
  every behaviour of the peer. For the instrument as constructed (buffer size 1024,
  utf-8) and a peer that sends a positive multiple of 1024 bytes of ASCII text and then
  closes, the read after the last full chunk yields no bytes, which decode to the empty
  string, shorter than the buffer, and \<^verbatim>\<open>_recv\<close> returns the accumulated text with the
  trailing terminator stripped. If instead the peer stays silent without closing, the
  timeout of that read raises the receive error.
\<close>

theorem receive_does_not_hang:
  "(0 < socket_buffer_size inst \<longrightarrow> (\<exists>r inst'. recv inst = Some (r, inst'))) \<and>
   socket_recv (s\<lparr>inbox := []\<rparr>) 1024 = (Inr [], s\<lparr>inbox := []\<rparr>) \<and>
   decode UTF_8 [] = Some [] \<and>
   (inbox s = [Data bs] \<and> length bs = Suc k * 1024 \<and> (\<forall>b\<in>set bs. b < 128) \<longrightarrow>
      recv ((SocketInstrument addr port)\<lparr>socket := Some s\<rparr>) =
        Some (Inr (rstrip (str [CHR 0x0A]) bs),
              (SocketInstrument addr port)\<lparr>socket := Some (s\<lparr>inbox := []\<rparr>)\<rparr>)) \<and>
   (inbox s = [Data bs, Fault Timeout] \<and> length bs = Suc k * 1024 \<and> (\<forall>b\<in>set bs. b < 128) \<longrightarrow>
      recv ((SocketInstrument addr port)\<lparr>socket := Some s\<rparr>) =
        Some (Inl (SocketInstrumentError Recv_timeout),
              (SocketInstrument addr port)\<lparr>socket := Some (s\<lparr>inbox := []\<rparr>)\<rparr>))"
proof (intro conjI impI)
  assume "0 < socket_buffer_size inst"
  then show "\<exists>r inst'. recv inst = Some (r, inst')" by (rule recv_terminates)
next
  show "socket_recv (s\<lparr>inbox := []\<rparr>) 1024 = (Inr [], s\<lparr>inbox := []\<rparr>)" by simp
next
  show "decode UTF_8 [] = Some []" by simp
next
  let ?inst = "(SocketInstrument addr port)\<lparr>socket := Some s\<rparr>"
  assume a: "inbox s = [Data bs] \<and> length bs = Suc k * 1024 \<and> (\<forall>b\<in>set bs. b < 128)"
  have "recv_loop ?inst s [] = Some (Inr ([] @ bs), s\<lparr>inbox := []\<rparr>)"
    using a by (intro recv_loop_exact_multiple[where k = k]) (simp_all add: SocketInstrument_def)
  then have "recv ?inst = Some (Inr (rstrip (escseq ?inst) bs), ?inst\<lparr>socket := Some (s\<lparr>inbox := []\<rparr>)\<rparr>)"
    by (intro recv_connected[where s = s]) (simp_all add: SocketInstrument_def)
  then show "recv ?inst = Some (Inr (rstrip (str [CHR 0x0A]) bs),
              (SocketInstrument addr port)\<lparr>socket := Some (s\<lparr>inbox := []\<rparr>)\<rparr>)"
    by (simp add: SocketInstrument_def)
next
  let ?inst = "(SocketInstrument addr port)\<lparr>socket := Some s\<rparr>"
  assume a: "inbox s = [Data bs, Fault Timeout] \<and> length bs = Suc k * 1024 \<and>
    (\<forall>b\<in>set bs. b < 128)"
  have "recv_loop ?inst s [] =
      Some (Inl (SocketInstrumentError Recv_timeout), s\<lparr>inbox := []\<rparr>)"
    using a by (intro recv_loop_exact_multiple_timeout[where k = k and bs = bs])
      (simp_all add: SocketInstrument_def)
  then have "recv ?inst = Some (Inl (SocketInstrumentError Recv_timeout),
      ?inst\<lparr>socket := Some (s\<lparr>inbox := []\<rparr>)\<rparr>)"
    by (intro recv_connected_error[where s = s]) (simp_all add: SocketInstrument_def)
  then show "recv ?inst = Some (Inl (SocketInstrumentError Recv_timeout),
              (SocketInstrument addr port)\<lparr>socket := Some (s\<lparr>inbox := []\<rparr>)\<rparr>)"
    by (simp add: SocketInstrument_def)
qed

theorem receive_does_not_hang_witness:
  "inbox \<lparr>outbox = [], send_fault = None, inbox = [Data (replicate 1023 65 @ [10])]\<rparr>
     = [Data (replicate 1023 65 @ [10])] \<and>
   length (replicate 1023 (65 :: nat) @ [10]) = Suc 0 * 1024 \<and>
   (0 :: nat) < socket_buffer_size (SocketInstrument ''10.0.0.2'' ''5025'') \<and>
   recv ((SocketInstrument ''10.0.0.2'' ''5025'')
          \<lparr>socket := Some \<lparr>outbox = [], send_fault = None,
                            inbox = [Data (replicate 1023 65 @ [10])]\<rparr>\<rparr>) =
     Some (Inr (replicate 1023 65),
           (SocketInstrument ''10.0.0.2'' ''5025'')
             \<lparr>socket := Some \<lparr>outbox = [], send_fault = None, inbox = []\<rparr>\<rparr>) \<and>
   recv ((SocketInstrument ''10.0.0.2'' ''5025'')
          \<lparr>socket := Some \<lparr>outbox = [], send_fault = None,
                            inbox = [Data (replicate 1023 65 @ [10]), Fault Timeout]\<rparr>\<rparr>) =
     Some (Inl (SocketInstrumentError Recv_timeout),
           (SocketInstrument ''10.0.0.2'' ''5025'')
             \<lparr>socket := Some \<lparr>outbox = [], send_fault = None, inbox = []\<rparr>\<rparr>)"
proof -
  let ?bs = "replicate 1023 (65 :: nat) @ [10]"
  let ?s = "\<lparr>outbox = [], send_fault = None, inbox = [Data ?bs]\<rparr>"
  let ?t = "\<lparr>outbox = [], send_fault = None, inbox = [Data ?bs, Fault Timeout]\<rparr>"
  have h1: "inbox ?s = [Data ?bs]" and h1': "inbox ?t = [Data ?bs, Fault Timeout]" by simp_all
  have h2: "length ?bs = Suc 0 * 1024" by simp
  have h3: "\<forall>b\<in>set ?bs. b < 128" by simp
  have h4: "(0 :: nat) < socket_buffer_size (SocketInstrument ''10.0.0.2'' ''5025'')"
    by (simp add: SocketInstrument_def)
  have r: "rstrip (str [CHR 0x0A]) ?bs = replicate 1023 65"
    by (simp add: str_def rstrip_newline_block)
  from receive_does_not_hang[of _ ?s ?bs 0 "''10.0.0.2''" "''5025''"] h1 h2 h3
  have a: "recv ((SocketInstrument ''10.0.0.2'' ''5025'')\<lparr>socket := Some ?s\<rparr>) =
     Some (Inr (rstrip (str [CHR 0x0A]) ?bs),
           (SocketInstrument ''10.0.0.2'' ''5025'')
             \<lparr>socket := Some \<lparr>outbox = [], send_fault = None, inbox = []\<rparr>\<rparr>)"
    by simp
  from receive_does_not_hang[of _ ?t ?bs 0 "''10.0.0.2''" "''5025''"] h1' h2 h3
  have b: "recv ((SocketInstrument ''10.0.0.2'' ''5025'')\<lparr>socket := Some ?t\<rparr>) =
     Some (Inl (SocketInstrumentError Recv_timeout),
           (SocketInstrument ''10.0.0.2'' ''5025'')
             \<lparr>socket := Some \<lparr>outbox = [], send_fault = None, inbox = []\<rparr>\<rparr>)"
    by simp
  from a b h1 h2 h4 show ?thesis unfolding r by blast
qed

text \<open>
  C9. For every command that the codec can encode, on a connected instrument whose
  socket accepts the write, \<^verbatim>\<open>_query\<close> writes in one \<^verbatim>\<open>sendall\<close> exactly the encoding of
  the command followed by \<^verbatim>\<open>;*OPC?\<close> and the line terminator, and its result is that of
  one \<^verbatim>\<open>_recv\<close> on the socket after that write; nothing else is written. For the
  instrument as constructed, the query \<^verbatim>\<open>*RST\<close> writes the eleven bytes of
  \<^verbatim>\<open>*RST;*OPC?\<close> and a line feed.
\<close>

theorem query_writes_command_and_opc:
  "(socket inst = Some s \<and> send_fault s = None \<and>
    encode (codefmt inst) (cmd @ str '';*OPC?'' @ escseq inst) = Some bs \<longrightarrow>
      send inst (cmd @ str '';*OPC?'') =
        (Inr (), inst\<lparr>socket := Some (s\<lparr>outbox := outbox s @ [bs]\<rparr>)\<rparr>) \<and>
      query inst cmd = recv (inst\<lparr>socket := Some (s\<lparr>outbox := outbox s @ [bs]\<rparr>)\<rparr>) \<and>
      (\<forall>r inst'. query inst cmd = Some (r, inst') \<longrightarrow>
         (\<exists>s'. socket inst' = Some s' \<and> outbox s' = outbox s @ [bs]))) \<and>
   (send_fault s = None \<longrightarrow>
      query ((SocketInstrument addr port)\<lparr>socket := Some s\<rparr>) (str ''*RST'') =
        recv ((SocketInstrument addr port)
               \<lparr>socket := Some (s\<lparr>outbox := outbox s @
                  [[42, 82, 83, 84, 59, 42, 79, 80, 67, 63, 10]]\<rparr>)\<rparr>))"
proof (intro conjI impI allI)
  assume a: "socket inst = Some s \<and> send_fault s = None \<and>
    encode (codefmt inst) (cmd @ str '';*OPC?'' @ escseq inst) = Some bs"
  then show snd: "send inst (cmd @ str '';*OPC?'') =
        (Inr (), inst\<lparr>socket := Some (s\<lparr>outbox := outbox s @ [bs]\<rparr>)\<rparr>)"
    by (intro send_ok) simp_all
  then show q: "query inst cmd = recv (inst\<lparr>socket := Some (s\<lparr>outbox := outbox s @ [bs]\<rparr>)\<rparr>)"
    by (simp add: query_def)
  fix r inst'
  assume "query inst cmd = Some (r, inst')"
  with q have "recv (inst\<lparr>socket := Some (s\<lparr>outbox := outbox s @ [bs]\<rparr>)\<rparr>) = Some (r, inst')"
    by simp
  from recv_outbox[OF this, of "s\<lparr>outbox := outbox s @ [bs]\<rparr>"]
  show "\<exists>s'. socket inst' = Some s' \<and> outbox s' = outbox s @ [bs]" by simp
next
  let ?inst = "(SocketInstrument addr port)\<lparr>socket := Some s\<rparr>"
  assume f: "send_fault s = None"
  have e: "encode (codefmt ?inst) ((str ''*RST'' @ str '';*OPC?'') @ escseq ?inst) =
      Some [42, 82, 83, 84, 59, 42, 79, 80, 67, 63, 10]"
    by (simp add: SocketInstrument_def str_def utf8_encode_cp_def)
  have "send ?inst (str ''*RST'' @ str '';*OPC?'') =
      (Inr (), ?inst\<lparr>socket := Some (s\<lparr>outbox := outbox s @
                  [[42, 82, 83, 84, 59, 42, 79, 80, 67, 63, 10]]\<rparr>)\<rparr>)"
    using f e by (intro send_ok) simp_all
  then show "query ?inst (str ''*RST'') =
        recv ((SocketInstrument addr port)
               \<lparr>socket := Some (s\<lparr>outbox := outbox s @
                  [[42, 82, 83, 84, 59, 42, 79, 80, 67, 63, 10]]\<rparr>)\<rparr>)"
    by (simp add: query_def)
qed

theorem query_writes_command_and_opc_witness:
  "socket ((SocketInstrument ''10.0.0.2'' ''5025'')
      \<lparr>socket := Some \<lparr>outbox = [], send_fault = None, inbox = [Data [49, 10]]\<rparr>\<rparr>)
     = Some \<lparr>outbox = [], send_fault = None, inbox = [Data [49, 10]]\<rparr> \<and>
   send_fault \<lparr>outbox = [], send_fault = None, inbox = [Data [49, 10]]\<rparr> = None \<and>
   encode UTF_8 (str ''*IDN?'' @ str '';*OPC?'' @ str [CHR 0x0A]) =
     Some [42, 73, 68, 78, 63, 59, 42, 79, 80, 67, 63, 10] \<and>
   query ((SocketInstrument ''10.0.0.2'' ''5025'')
      \<lparr>socket := Some \<lparr>outbox = [], send_fault = None, inbox = [Data [49, 10]]\<rparr>\<rparr>)
      (str ''*IDN?'') =
     Some (Inr [49],
       (SocketInstrument ''10.0.0.2'' ''5025'')
         \<lparr>socket := Some \<lparr>outbox = [[42, 73, 68, 78, 63, 59, 42, 79, 80, 67, 63, 10]],
                          send_fault = None, inbox = []\<rparr>\<rparr>)"
proof -
  let ?s = "\<lparr>outbox = [], send_fault = None, inbox = [Data [49, 10]]\<rparr>"
  let ?inst = "(SocketInstrument ''10.0.0.2'' ''5025'')\<lparr>socket := Some ?s\<rparr>"
  let ?bs = "[42, 73, 68, 78, 63, 59, 42, 79, 80, 67, 63, 10 :: nat]"
  have h1: "socket ?inst = Some ?s" by simp
  have h2: "send_fault ?s = None" by simp
  have h3: "encode UTF_8 (str ''*IDN?'' @ str '';*OPC?'' @ str [CHR 0x0A]) = Some ?bs"
    by (simp add: str_def utf8_encode_cp_def)
  then have h3': "encode (codefmt ?inst) (str ''*IDN?'' @ str '';*OPC?'' @ escseq ?inst) = Some ?bs"
    by (simp add: SocketInstrument_def)
  have r: "recv (?inst\<lparr>socket := Some (?s\<lparr>outbox := outbox ?s @ [?bs]\<rparr>)\<rparr>) =
     Some (Inr [49], (SocketInstrument ''10.0.0.2'' ''5025'')
         \<lparr>socket := Some \<lparr>outbox = [?bs], send_fault = None, inbox = []\<rparr>\<rparr>)"
    by (simp add: recv_def recv_loop.simps SocketInstrument_def str_def rstrip_def)
  from query_writes_command_and_opc[of ?inst ?s "str ''*IDN?''" ?bs] h1 h2 h3'
  have "query ?inst (str ''*IDN?'') =
      recv (?inst\<lparr>socket := Some (?s\<lparr>outbox := outbox ?s @ [?bs]\<rparr>)\<rparr>)"
    by blast
  with r h1 h2 h3 show ?thesis by simp
qed

end
